theory Spec2Isabelle
  imports Complex_Main "HOL-Library.AList"
begin

section \<open>Python values, exceptions and text\<close>

text \<open>
  The results of \<^verbatim>\<open>TrafficImageProcessor.process_image\<close> are nested Python dictionaries.
  A dictionary is an association list in insertion order; a key is present when
  \<open>map_of\<close> finds it. \<open>VFloat\<close> carries the exact value of the decimal literal that
  \<^verbatim>\<open>float(n)\<close> converts (the rounding to a double is not modelled).
\<close>

datatype pyval =
    VNone
  | VStr string
  | VInt int
  | VFloat rat
  | VList "pyval list"
  | VDict "(string \<times> pyval) list"

type_synonym pydict = "(string \<times> pyval) list"

text \<open>A raised exception, carrying \<^verbatim>\<open>str(e)\<close>.\<close>

datatype exn = Exn string

definition andthen :: "exn + 'a \<Rightarrow> ('a \<Rightarrow> exn + 'b) \<Rightarrow> exn + 'b" where
  "andthen x f = (case x of Inl e \<Rightarrow> Inl e | Inr v \<Rightarrow> f v)"

text \<open>
  Text is a list of 8-bit characters read as the code points 0..255 of a Python
  \<^verbatim>\<open>str\<close>. On these code points \<^verbatim>\<open>str.isspace\<close> and the regular
  expression class \<^verbatim>\<open>\s\<close> are the same twelve characters, \<^verbatim>\<open>\d\<close> is
  \<^verbatim>\<open>[0-9]\<close>, and \<^verbatim>\<open>str.lower\<close> moves A-Z and the accented capitals
  0xC0-0xDE (without 0xD7) up by 0x20.
\<close>

definition is_space :: "char \<Rightarrow> bool" where
  "is_space c = (c \<in> set [CHR 0x09, CHR 0x0A, CHR 0x0B, CHR 0x0C, CHR 0x0D,
                            CHR 0x1C, CHR 0x1D, CHR 0x1E, CHR 0x1F, CHR 0x20,
                            CHR 0x85, CHR 0xA0])"

definition is_digit :: "char \<Rightarrow> bool" where
  "is_digit c = (c \<in> set ''0123456789'')"

definition is_upper :: "char \<Rightarrow> bool" where
  "is_upper c = (c \<in> set ''ABCDEFGHIJKLMNOPQRSTUVWXYZ'')"

definition is_lower :: "char \<Rightarrow> bool" where
  "is_lower c = (c \<in> set ''abcdefghijklmnopqrstuvwxyz'')"

definition upper_chars :: string where
  "upper_chars = ''ABCDEFGHIJKLMNOPQRSTUVWXYZ'' @
     [CHR 0xC0, CHR 0xC1, CHR 0xC2, CHR 0xC3, CHR 0xC4, CHR 0xC5, CHR 0xC6, CHR 0xC7,
      CHR 0xC8, CHR 0xC9, CHR 0xCA, CHR 0xCB, CHR 0xCC, CHR 0xCD, CHR 0xCE, CHR 0xCF,
      CHR 0xD0, CHR 0xD1, CHR 0xD2, CHR 0xD3, CHR 0xD4, CHR 0xD5, CHR 0xD6,
      CHR 0xD8, CHR 0xD9, CHR 0xDA, CHR 0xDB, CHR 0xDC, CHR 0xDD, CHR 0xDE]"

definition lower_chars :: string where
  "lower_chars = ''abcdefghijklmnopqrstuvwxyz'' @
     [CHR 0xE0, CHR 0xE1, CHR 0xE2, CHR 0xE3, CHR 0xE4, CHR 0xE5, CHR 0xE6, CHR 0xE7,
      CHR 0xE8, CHR 0xE9, CHR 0xEA, CHR 0xEB, CHR 0xEC, CHR 0xED, CHR 0xEE, CHR 0xEF,
      CHR 0xF0, CHR 0xF1, CHR 0xF2, CHR 0xF3, CHR 0xF4, CHR 0xF5, CHR 0xF6,
      CHR 0xF8, CHR 0xF9, CHR 0xFA, CHR 0xFB, CHR 0xFC, CHR 0xFD, CHR 0xFE]"

definition lower_char :: "char \<Rightarrow> char" where
  "lower_char c = (case map_of (zip upper_chars lower_chars) c of Some l \<Rightarrow> l | None \<Rightarrow> c)"

definition lower :: "string \<Rightarrow> string" where
  "lower s = map lower_char s"

text \<open>\<^verbatim>\<open>s.startswith(p)\<close> and the substring test \<^verbatim>\<open>p in s\<close>.\<close>

fun startswith :: "string \<Rightarrow> string \<Rightarrow> bool" where
  "startswith s [] = True"
| "startswith [] (p # ps) = False"
| "startswith (c # cs) (p # ps) = (c = p \<and> startswith cs ps)"

fun py_in :: "string \<Rightarrow> string \<Rightarrow> bool" where
  "py_in p [] = (p = [])"
| "py_in p (c # cs) = (startswith (c # cs) p \<or> py_in p cs)"

text \<open>\<^verbatim>\<open>any(keyword in text for keyword in keywords)\<close>\<close>

definition any_in :: "string list \<Rightarrow> string \<Rightarrow> bool" where
  "any_in keywords text = list_ex (\<lambda>keyword. py_in keyword text) keywords"

text \<open>\<^verbatim>\<open>s.strip()\<close> and \<^verbatim>\<open>s.split('\n')\<close>.\<close>

definition strip :: "string \<Rightarrow> string" where
  "strip s = rev (dropWhile is_space (rev (dropWhile is_space s)))"

fun split_on :: "char \<Rightarrow> string \<Rightarrow> string \<Rightarrow> string list" where
  "split_on sep cur [] = [cur]"
| "split_on sep cur (c # cs) =
     (if c = sep then cur # split_on sep [] cs else split_on sep (cur @ [c]) cs)"

definition split_lines :: "string \<Rightarrow> string list" where
  "split_lines s = split_on (CHR 0x0A) [] s"

text \<open>Decimal digits: \<^verbatim>\<open>str(i)\<close> of a natural number and the value of a digit string.\<close>

fun str_nat :: "nat \<Rightarrow> string" where
  "str_nat n = (if n < 10 then [''0123456789'' ! n]
                else str_nat (n div 10) @ [''0123456789'' ! (n mod 10)])"

declare str_nat.simps [simp del]

definition digit_val :: "char \<Rightarrow> nat" where
  "digit_val c = (case map_of (zip ''0123456789'' [0, 1, 2, 3, 4, 5, 6, 7, 8, 9]) c of
                    Some d \<Rightarrow> d | None \<Rightarrow> 0)"

definition nat_of_digits :: "string \<Rightarrow> nat" where
  "nat_of_digits s = foldl (\<lambda>a c. 10 * a + digit_val c) 0 s"

text \<open>
  \<^verbatim>\<open>int(s)\<close> on a string of digits. CPython refuses a string of more than
  \<^verbatim>\<open>sys.get_int_max_str_digits()\<close> digits with a ValueError; the limit is a parameter,
  and 0 means that there is none.
\<close>

definition py_int :: "nat \<Rightarrow> string \<Rightarrow> exn + int" where
  "py_int max_str_digits s =
     (if 0 < max_str_digits \<and> max_str_digits < length s
      then Inl (Exn ''Exceeds the limit for integer string conversion'')
      else Inr (int (nat_of_digits s)))"

text \<open>\<^verbatim>\<open>float(n)\<close> on a token matched by \<^verbatim>\<open>\d+(?:\.\d+)?\<close>.\<close>

definition py_float :: "string \<Rightarrow> rat" where
  "py_float s =
     (let ip = takeWhile is_digit s; fp = drop 1 (dropWhile is_digit s)
      in of_nat (nat_of_digits ip) + of_nat (nat_of_digits fp) / 10 ^ length fp)"

section \<open>Regular expressions of the field extractors\<close>

text \<open>
  \<^verbatim>\<open>re.findall\<close> scans the text from the left: where the pattern matches it yields the
  group and continues behind the match, elsewhere it moves on by one character. A
  matcher gives the group and the rest of the text behind the match. None of the
  patterns here matches the empty string, so nothing is found at the end of the text.
\<close>

function re_findall :: "(string \<Rightarrow> (string \<times> string) option) \<Rightarrow> string \<Rightarrow> string list" where
  "re_findall m [] = []"
| "re_findall m (c # cs) =
     (case m (c # cs) of
        None \<Rightarrow> re_findall m cs
      | Some (g, rest) \<Rightarrow> g # re_findall m (if length rest \<le> length cs then rest else cs))"
  by pat_completeness auto
termination
  by (relation "measure (\<lambda>(m, s). length s)") auto

text \<open>\<^verbatim>\<open>re.search\<close>: the first match, if any.\<close>

definition re_search :: "(string \<Rightarrow> (string \<times> string) option) \<Rightarrow> string \<Rightarrow> string option" where
  "re_search m s = (case re_findall m s of [] \<Rightarrow> None | g # _ \<Rightarrow> Some g)"

text \<open>One of the alternatives \<open>units\<close>, in order, matched without regard to case.\<close>

fun match_alt :: "string list \<Rightarrow> string \<Rightarrow> string option" where
  "match_alt [] s = None"
| "match_alt (u # us) s =
     (if startswith (lower (take (length u) s)) u then Some (drop (length u) s)
      else match_alt us s)"

text \<open>
  \<^verbatim>\<open>(\d+)\s*(?:km/h|mph|kph)\<close> with \<^verbatim>\<open>re.IGNORECASE\<close>. The digits and the
  white space are taken greedily; giving back a digit or a blank never lets a unit
  match, so the greedy path is the only one.
\<close>

definition match_int_unit :: "string list \<Rightarrow> string \<Rightarrow> (string \<times> string) option" where
  "match_int_unit units s =
     (let ds = takeWhile is_digit s
      in if ds = [] then None
         else (case match_alt units (dropWhile is_space (dropWhile is_digit s)) of
                 None \<Rightarrow> None
               | Some rest \<Rightarrow> Some (ds, rest)))"

definition speed_pattern :: "string \<Rightarrow> (string \<times> string) option" where
  "speed_pattern = match_int_unit [''km/h'', ''mph'', ''kph'']"

text \<open>\<^verbatim>\<open>\d+(?:\.\d+)?\<close>\<close>

definition number_pattern :: "string \<Rightarrow> (string \<times> string) option" where
  "number_pattern s =
     (let ds = takeWhile is_digit s; r = dropWhile is_digit s
      in if ds = [] then None
         else (case r of
                 [] \<Rightarrow> Some (ds, r)
               | c # r' \<Rightarrow>
                   if c = CHR ''.'' \<and> takeWhile is_digit r' \<noteq> []
                   then Some (ds @ c # takeWhile is_digit r', dropWhile is_digit r')
                   else Some (ds, r)))"

text \<open>
  \<^verbatim>\<open>([A-Z][a-z]+(?:\s+[A-Z][a-z]+)*)\<close>: a capitalised word, then as many groups of
  white space and a capitalised word as follow.
\<close>

definition cap_word :: "string \<Rightarrow> (string \<times> string) option" where
  "cap_word s =
     (case s of
        [] \<Rightarrow> None
      | c # cs \<Rightarrow>
          if is_upper c \<and> takeWhile is_lower cs \<noteq> []
          then Some (c # takeWhile is_lower cs, dropWhile is_lower cs)
          else None)"

function more_cap_words :: "string \<Rightarrow> string \<times> string" where
  "more_cap_words s =
     (if takeWhile is_space s = [] then ([], s)
      else (case cap_word (dropWhile is_space s) of
              None \<Rightarrow> ([], s)
            | Some (w, r) \<Rightarrow>
                (case more_cap_words r of
                   (more, rest) \<Rightarrow> (takeWhile is_space s @ w @ more, rest))))"
  by pat_completeness auto
termination
proof (relation "measure length", goal_cases)
  case 1
  show ?case by simp
next
  case (2 s x2 w r)
  have "length r < length (dropWhile is_space s)"
    using 2
    by (auto simp: cap_word_def less_Suc_eq_le length_dropWhile_le
             split: list.splits if_splits)
  also have "\<dots> \<le> length s"
    by (rule length_dropWhile_le)
  finally show ?case by simp
qed

declare more_cap_words.simps [simp del]

definition location_pattern :: "string \<Rightarrow> (string \<times> string) option" where
  "location_pattern s =
     (case cap_word s of
        None \<Rightarrow> None
      | Some (w, r) \<Rightarrow> (case more_cap_words r of (more, rest) \<Rightarrow> Some (w @ more, rest)))"

text \<open>
  \<^verbatim>\<open>(\d+(?:\.\d+)?)\s*(?:km|miles|mi)\<close> with \<^verbatim>\<open>re.IGNORECASE\<close>: a number, white
  space, a unit. Giving back the fraction or a digit leaves a dot or a digit where the
  unit has to start, so again the greedy path is the only one.
\<close>

definition match_number_unit :: "string list \<Rightarrow> string \<Rightarrow> (string \<times> string) option" where
  "match_number_unit units s =
     (case number_pattern s of
        None \<Rightarrow> None
      | Some (n, r) \<Rightarrow>
          (case match_alt units (dropWhile is_space r) of
             None \<Rightarrow> None
           | Some rest \<Rightarrow> Some (n, rest)))"

definition time_pattern :: "string \<Rightarrow> (string \<times> string) option" where
  "time_pattern = match_int_unit [''min'', ''minutes'', ''hrs'', ''hours'']"

definition distance_pattern :: "string \<Rightarrow> (string \<times> string) option" where
  "distance_pattern = match_number_unit [''km'', ''miles'', ''mi'']"

text \<open>
  \<^verbatim>\<open>re.split(r'\s{2,}|\t', line)\<close>: at each position a run of two or more white-space
  characters is a separator, taken whole; failing that, a single tab is one. \<open>cur\<close> is
  the cell read so far.
\<close>

function split_cells :: "string \<Rightarrow> string \<Rightarrow> string list" where
  "split_cells cur [] = [cur]"
| "split_cells cur (c # cs) =
     (if is_space c \<and> takeWhile is_space cs \<noteq> [] then cur # split_cells [] (dropWhile is_space cs)
      else if c = CHR 0x09 then cur # split_cells [] cs
      else split_cells (cur @ [c]) cs)"
  by pat_completeness auto
termination
  by (relation "measure (\<lambda>(cur, s). length s)") (auto simp: less_Suc_eq_le length_dropWhile_le)

definition re_split :: "string \<Rightarrow> string list" where
  "re_split line = split_cells [] line"

text \<open>
  The separators in the words of the specification: a text is free of separators when it
  holds no tab and no two adjacent white-space characters, and a separator is a single tab
  or a run of at least two white-space characters.
\<close>

fun sep_free :: "string \<Rightarrow> bool" where
  "sep_free [] = True"
| "sep_free [c] = (c \<noteq> CHR 0x09)"
| "sep_free (c # d # cs) = (c \<noteq> CHR 0x09 \<and> \<not> (is_space c \<and> is_space d) \<and> sep_free (d # cs))"

definition is_sep :: "string \<Rightarrow> bool" where
  "is_sep sep = (sep = [CHR 0x09] \<or> (2 \<le> length sep \<and> list_all is_space sep))"

section \<open>The image, the libraries and the world of one call\<close>

text \<open>
  What OpenCV and Tesseract report about a decoded image. Each field is the outcome of
  the library call named beside it, which may raise. Pixels of the HSV raster are
  triples of 8-bit channel values.
\<close>

record image =
  ocr_gray :: "exn + string"  \<comment> \<open>\<^verbatim>\<open>image_to_string(gray)\<close>\<close>
  ocr_gray_psm6 :: "exn + string"  \<comment> \<open>\<^verbatim>\<open>image_to_string(gray, config='--psm 6')\<close>\<close>
  ocr_color :: "exn + string"  \<comment> \<open>\<^verbatim>\<open>image_to_string(image)\<close>\<close>
  ocr_color_psm6 :: "exn + string"  \<comment> \<open>\<^verbatim>\<open>image_to_string(image, config='--psm 6')\<close>\<close>
  hsv :: "exn + (nat \<times> nat \<times> nat) list"  \<comment> \<open>\<^verbatim>\<open>cvtColor(image, COLOR_BGR2HSV)\<close>\<close>
  line_pixels :: "exn + nat \<times> nat"
    \<comment> \<open>\<^verbatim>\<open>countNonZero\<close> of the openings with the 40x1 and the 1x40 kernel\<close>
  hough_circles :: "exn + bool"  \<comment> \<open>\<^verbatim>\<open>HoughCircles(...) is not None\<close>\<close>
  quad_contours :: "exn + nat"  \<comment> \<open>external contours approximated by 4 vertices\<close>

text \<open>
  The world of one call: the file system behind \<^verbatim>\<open>cv2.imread\<close> (None for a path
  that cannot be read), the clock, the raw draws of numpy's generator and the
  interpreter's limit on integer strings.
\<close>

record world =
  imread :: "string \<Rightarrow> image option"
  now_isoformat :: string
  random_raw :: "nat \<Rightarrow> nat"
  int_max_str_digits :: nat

text \<open>
  \<^verbatim>\<open>cv2.cvtColor(image, cv2.COLOR_BGR2GRAY)\<close> raises on None. The record of a decoded
  image stands for the colour raster and for its grey version alike: each field names
  the library call it is the outcome of, so the value returned here is passed on where the
  source passes \<^verbatim>\<open>gray\<close> and where it passes \<^verbatim>\<open>image\<close>.
\<close>

definition cvtColor :: "image option \<Rightarrow> exn + image" where
  "cvtColor img =
     (case img of
        None \<Rightarrow> Inl (Exn ''(-215:Assertion failed) !_src.empty() in function cvtColor'')
      | Some im \<Rightarrow> Inr im)"

text \<open>\<^verbatim>\<open>pytesseract.image_to_string\<close> raises a TypeError on None.\<close>

definition image_to_string :: "(image \<Rightarrow> exn + string) \<Rightarrow> image option \<Rightarrow> exn + string" where
  "image_to_string variant img =
     (case img of
        None \<Rightarrow> Inl (Exn ''Unsupported image object'')
      | Some im \<Rightarrow> variant im)"

text \<open>\<^verbatim>\<open>np.random.randint(low, high)\<close>: a draw from \<open>low\<close> up to, not including, \<open>high\<close>.\<close>

definition randint :: "int \<Rightarrow> int \<Rightarrow> nat \<Rightarrow> int" where
  "randint low high raw = low + int (raw mod nat (high - low))"

text \<open>\<^verbatim>\<open>dict(zip(keys, values))\<close>: a repeated key keeps its place and takes the later value.\<close>

definition dict_zip :: "string list \<Rightarrow> pyval list \<Rightarrow> pydict" where
  "dict_zip keys vals = foldl (\<lambda>d (k, v). AList.update k v d) [] (zip keys vals)"

text \<open>
  \<^verbatim>\<open>pd.DataFrame(rows, columns=columns)\<close> on lists of strings: short rows are padded
  with None up to the longest row, and a header of another length is a ValueError.
\<close>

definition DataFrame :: "string list list \<Rightarrow> string list \<Rightarrow> exn + (string list \<times> pyval list list)" where
  "DataFrame rows columns =
     (let width = foldl max 0 (map length rows)
      in if length columns \<noteq> width
         then Inl (Exn (str_nat (length columns) @ '' columns passed, passed data had '' @
                        str_nat width @ '' columns''))
         else Inr (columns,
                   map (\<lambda>row. map VStr row @ replicate (width - length row) VNone) rows))"

definition to_dict_records :: "string list \<times> pyval list list \<Rightarrow> pyval list" where
  "to_dict_records df = (case df of (columns, rows) \<Rightarrow> map (\<lambda>row. VDict (dict_zip columns row)) rows)"

section \<open>The classifier and the detectors\<close>

definition detect_table_structure :: "image \<Rightarrow> exn + bool" where
  "detect_table_structure gray_image =
     andthen (line_pixels gray_image)
       (\<lambda>(h_lines, v_lines). Inr (h_lines > 100 \<and> v_lines > 100))"

definition detect_image_type :: "world \<Rightarrow> string \<Rightarrow> exn + string" where
  "detect_image_type w image_path =
     (let img = imread w image_path in
      andthen (cvtColor img) (\<lambda>gray.
      andthen (image_to_string ocr_gray (Some gray)) (\<lambda>t.
        let text = lower t in
        (case (if any_in [''speed'', ''km/h'', ''mph'', ''traffic'', ''congestion''] text
               then (if any_in [''map'', ''route'', ''navigation'', ''street''] text
                     then Some ''traffic_map''
                     else if any_in [''chart'', ''graph'', ''data'', ''time''] text
                     then Some ''chart''
                     else if any_in [''camera'', ''live'', ''current''] text
                     then Some ''screenshot''
                     else None)
               else None) of
           Some label \<Rightarrow> Inr label
         | None \<Rightarrow>
             andthen (detect_table_structure gray)
               (\<lambda>is_table. if is_table then Inr ''table'' else Inr ''chart'')))))"

text \<open>\<^verbatim>\<open>cv2.inRange\<close> on one pixel: every channel within its bounds, both included.\<close>

definition inRange :: "nat \<times> nat \<times> nat \<Rightarrow> nat \<times> nat \<times> nat \<Rightarrow> nat \<times> nat \<times> nat \<Rightarrow> bool" where
  "inRange lo hi px =
     (case (lo, hi, px) of
        ((l0, l1, l2), (h0, h1, h2), (p0, p1, p2)) \<Rightarrow>
          l0 \<le> p0 \<and> p0 \<le> h0 \<and> l1 \<le> p1 \<and> p1 \<le> h1 \<and> l2 \<le> p2 \<and> p2 \<le> h2)"

definition count_in_range :: "nat \<times> nat \<times> nat \<Rightarrow> nat \<times> nat \<times> nat \<Rightarrow> (nat \<times> nat \<times> nat) list \<Rightarrow> nat" where
  "count_in_range lo hi pixels = length (filter (inRange lo hi) pixels)"

definition detect_traffic_colors :: "image \<Rightarrow> exn + string list" where
  "detect_traffic_colors img =
     andthen (hsv img) (\<lambda>pixels.
       let green_pixels = count_in_range (40, 50, 50) (80, 255, 255) pixels;
           yellow_pixels = count_in_range (20, 50, 50) (40, 255, 255) pixels;
           red_pixels = count_in_range (0, 50, 50) (10, 255, 255) pixels;
           conditions =
             (if red_pixels > green_pixels \<and> red_pixels > yellow_pixels then [''Congested'']
              else if yellow_pixels > green_pixels then [''Moderate'']
              else [''Good''])
       in Inr (concat (replicate 5 conditions)))"

definition detect_chart_type :: "image \<Rightarrow> exn + string" where
  "detect_chart_type img =
     andthen (hough_circles img) (\<lambda>circles.
       if circles then Inr ''pie_chart''
       else andthen (quad_contours img) (\<lambda>rectangles.
              if rectangles > 5 then Inr ''bar_chart'' else Inr ''line_chart''))"

definition opt_str :: "string option \<Rightarrow> pyval" where
  "opt_str x = (case x of None \<Rightarrow> VNone | Some s \<Rightarrow> VStr s)"

definition extract_traffic_info :: "string \<Rightarrow> pydict" where
  "extract_traffic_info text =
     [(''estimated_time'', opt_str (re_search time_pattern text)),
      (''distance'', opt_str (re_search distance_pattern text)),
      (''traffic_level'',
         (if any_in [''heavy'', ''congested'', ''slow''] (lower text) then VStr ''Heavy''
          else if any_in [''moderate'', ''medium''] (lower text) then VStr ''Moderate''
          else if any_in [''light'', ''clear'', ''good''] (lower text) then VStr ''Light''
          else VNone))]"

section \<open>The processors\<close>

text \<open>
  The loop of \<^verbatim>\<open>_process_traffic_map\<close> over \<^verbatim>\<open>enumerate(locations[:5])\<close>: \<open>i\<close> is the
  index, \<open>k\<close> the number of random draws made so far, and the triple holds the three
  lists of \<^verbatim>\<open>traffic_data\<close> that the loop appends to.
\<close>

fun combine ::
  "world \<Rightarrow> string list \<Rightarrow> string list \<Rightarrow> nat \<Rightarrow> nat \<Rightarrow> string list \<Rightarrow>
   string list \<times> int list \<times> string list \<Rightarrow> exn + (string list \<times> int list \<times> string list)" where
  "combine w speeds traffic_conditions i k [] acc = Inr acc"
| "combine w speeds traffic_conditions i k (location # rest) (ls, ss, cs) =
     (case (if i < length speeds then py_int (int_max_str_digits w) (speeds ! i)
            else Inr (randint 20 60 (random_raw w k))) of
        Inl e \<Rightarrow> Inl e
      | Inr speed \<Rightarrow>
          (let condition = (if i < length traffic_conditions then traffic_conditions ! i
                            else ''Moderate'')
           in combine w speeds traffic_conditions (Suc i) (if i < length speeds then k else Suc k)
                rest (ls @ [location], ss @ [speed], cs @ [condition])))"

definition process_traffic_map :: "world \<Rightarrow> string \<Rightarrow> exn + pydict" where
  "process_traffic_map w image_path =
     (let img = imread w image_path in
      andthen (cvtColor img) (\<lambda>gray.
      andthen (image_to_string ocr_color_psm6 img) (\<lambda>text.
        let speeds = re_findall speed_pattern text;
            locations = re_findall location_pattern text
        in andthen (detect_traffic_colors gray) (\<lambda>traffic_conditions.
           andthen (combine w speeds traffic_conditions 0 0 (take 5 locations) ([], [], []))
             (\<lambda>(ls, ss, cs).
                Inr [(''type'', VStr ''traffic_map''),
                     (''data'', VDict [(''locations'', VList (map VStr ls)),
                                       (''speeds'', VList (map VInt ss)),
                                       (''conditions'', VList (map VStr cs)),
                                       (''timestamp'', VStr (now_isoformat w))]),
                     (''extracted_count'', VInt (int (length ls)))])))))"

definition process_chart :: "world \<Rightarrow> string \<Rightarrow> exn + pydict" where
  "process_chart w image_path =
     (let img = imread w image_path in
      andthen (cvtColor img) (\<lambda>gray.
      andthen (image_to_string ocr_color_psm6 img) (\<lambda>text.
        let numbers = map py_float (re_findall number_pattern text)
        in andthen (detect_chart_type gray) (\<lambda>chart_type.
             let vals = take 24 numbers;
                 labels = map (\<lambda>i. ''Hour '' @ str_nat i) [0..<length (take 24 numbers)]
             in Inr [(''type'', VStr ''chart''),
                     (''data'', VDict [(''values'', VList (map VFloat vals)),
                                       (''labels'', VList (map VStr labels)),
                                       (''chart_type'', VStr chart_type),
                                       (''timestamp'', VStr (now_isoformat w))]),
                     (''extracted_count'', VInt (int (length vals)))]))))"

definition process_screenshot :: "world \<Rightarrow> string \<Rightarrow> exn + pydict" where
  "process_screenshot w image_path =
     (let img = imread w image_path in
      andthen (image_to_string ocr_color_psm6 img) (\<lambda>text.
        let app_type =
              (if py_in ''google maps'' (lower text) \<or> py_in ''maps'' (lower text)
               then ''google_maps''
               else if py_in ''waze'' (lower text) then ''waze''
               else if py_in ''apple maps'' (lower text) then ''apple_maps''
               else ''unknown'')
        in Inr [(''type'', VStr ''screenshot''),
                (''data'', VDict [(''app_type'', VStr app_type),
                                  (''traffic_info'', VDict (extract_traffic_info text)),
                                  (''timestamp'', VStr (now_isoformat w))]),
                (''app_detected'', VStr app_type)]))"

text \<open>The loop of \<^verbatim>\<open>_process_table\<close> over the lines, appending to \<^verbatim>\<open>table_data\<close>.\<close>

fun parse_lines :: "string list \<Rightarrow> string list list \<Rightarrow> string list list" where
  "parse_lines [] table_data = table_data"
| "parse_lines (line # rest) table_data =
     (if strip line \<noteq> []
      then (let cells = re_split (strip line)
            in if length cells > 1 then parse_lines rest (table_data @ [cells])
               else parse_lines rest table_data)
      else parse_lines rest table_data)"

definition process_table :: "world \<Rightarrow> string \<Rightarrow> exn + pydict" where
  "process_table w image_path =
     (let img = imread w image_path in
      andthen (cvtColor img) (\<lambda>gray.
      andthen (image_to_string ocr_gray_psm6 (Some gray)) (\<lambda>text.
        let table_data = parse_lines (split_lines (strip text)) []
        in if table_data \<noteq> [] \<and> length table_data > 1
           then andthen (DataFrame (tl table_data) (hd table_data)) (\<lambda>df.
                  Inr [(''type'', VStr ''table''),
                       (''data'', VList (to_dict_records df)),
                       (''columns'', VList (map VStr (fst df))),
                       (''rows'', VInt (int (length (snd df))))])
           else Inr [(''type'', VStr ''table''),
                     (''data'', VList []),
                     (''error'', VStr ''No valid table structure detected'')])))"

definition generic_ocr_processing :: "world \<Rightarrow> string \<Rightarrow> exn + pydict" where
  "generic_ocr_processing w image_path =
     (let img = imread w image_path in
      andthen (image_to_string ocr_color img) (\<lambda>text.
        let numbers = re_findall number_pattern text
        in Inr [(''type'', VStr ''generic''),
                (''text'', VStr text),
                (''numbers'', VList (map (\<lambda>n. VFloat (py_float n)) numbers)),
                (''extracted_count'', VInt (int (length numbers)))]))"

section \<open>The entry point\<close>

text \<open>
  The body of the \<^verbatim>\<open>try\<close> block of \<^verbatim>\<open>process_image\<close>. The hint is passed
  explicitly; the source's default for it is \<^verbatim>\<open>auto\<close>.
\<close>

definition process_image_try :: "world \<Rightarrow> string \<Rightarrow> string \<Rightarrow> exn + pydict" where
  "process_image_try w image_path image_type =
     andthen (if image_type = ''auto'' then detect_image_type w image_path else Inr image_type)
       (\<lambda>image_type.
          if image_type = ''traffic_map'' then process_traffic_map w image_path
          else if image_type = ''chart'' then process_chart w image_path
          else if image_type = ''screenshot'' then process_screenshot w image_path
          else if image_type = ''table'' then process_table w image_path
          else generic_ocr_processing w image_path)"

text \<open>\<^verbatim>\<open>except Exception as e\<close> turns whatever the body raised into a dictionary.\<close>

definition process_image :: "world \<Rightarrow> string \<Rightarrow> string \<Rightarrow> pydict" where
  "process_image w image_path image_type =
     (case process_image_try w image_path image_type of
        Inl (Exn msg) \<Rightarrow> [(''error'', VStr (''Processing failed: '' @ msg)), (''data'', VNone)]
      | Inr result \<Rightarrow> result)"

section \<open>Error results and success results\<close>

text \<open>
  The two kinds of result in the words of the specification. The error is set when the
  key \<^verbatim>\<open>error\<close> is present; the data is empty when the key \<^verbatim>\<open>data\<close> is absent or holds
  None or the empty list; the payload is populated according to the kind: the three
  sequences of a traffic map, the values, labels and chart type of a chart, the
  application and the traffic information of a screenshot, at least one row of a table,
  the text and the numbers of a generic result.
\<close>

definition has_error :: "pydict \<Rightarrow> bool" where
  "has_error r = (map_of r ''error'' \<noteq> None)"

definition data_empty :: "pydict \<Rightarrow> bool" where
  "data_empty r =
     (case map_of r ''data'' of
        None \<Rightarrow> True
      | Some VNone \<Rightarrow> True
      | Some (VList []) \<Rightarrow> True
      | Some _ \<Rightarrow> False)"

definition is_str :: "pyval option \<Rightarrow> bool" where
  "is_str v = (case v of Some (VStr _) \<Rightarrow> True | _ \<Rightarrow> False)"

definition is_list :: "pyval option \<Rightarrow> bool" where
  "is_list v = (case v of Some (VList _) \<Rightarrow> True | _ \<Rightarrow> False)"

definition is_dict :: "pyval option \<Rightarrow> bool" where
  "is_dict v = (case v of Some (VDict _) \<Rightarrow> True | _ \<Rightarrow> False)"

definition payload_populated :: "pydict \<Rightarrow> bool" where
  "payload_populated r =
     (case map_of r ''type'' of
        Some (VStr kind) \<Rightarrow>
          if kind = ''traffic_map''
          then (case map_of r ''data'' of
                  Some (VDict d) \<Rightarrow>
                    is_list (map_of d ''locations'') \<and> is_list (map_of d ''speeds'') \<and>
                    is_list (map_of d ''conditions'')
                | _ \<Rightarrow> False)
          else if kind = ''chart''
          then (case map_of r ''data'' of
                  Some (VDict d) \<Rightarrow>
                    is_list (map_of d ''values'') \<and> is_list (map_of d ''labels'') \<and>
                    is_str (map_of d ''chart_type'')
                | _ \<Rightarrow> False)
          else if kind = ''screenshot''
          then (case map_of r ''data'' of
                  Some (VDict d) \<Rightarrow>
                    is_str (map_of d ''app_type'') \<and> is_dict (map_of d ''traffic_info'')
                | _ \<Rightarrow> False)
          else if kind = ''table''
          then (case map_of r ''data'' of
                  Some (VList rows) \<Rightarrow> rows \<noteq> [] \<and> list_all (\<lambda>row. is_dict (Some row)) rows
                | _ \<Rightarrow> False)
          else if kind = ''generic''
          then is_str (map_of r ''text'') \<and> is_list (map_of r ''numbers'')
          else False
      | _ \<Rightarrow> False)"

section \<open>Sample inputs\<close>

text \<open>
  An image whose four recognitions give the same text, with the given HSV raster, no
  long lines, no circles and seven quadrilaterals; and a world holding a few such files.
\<close>

definition sample_image :: "string \<Rightarrow> (nat \<times> nat \<times> nat) list \<Rightarrow> image" where
  "sample_image t pixels =
     \<lparr>ocr_gray = Inr t, ocr_gray_psm6 = Inr t, ocr_color = Inr t, ocr_color_psm6 = Inr t,
      hsv = Inr pixels, line_pixels = Inr (0, 0), hough_circles = Inr False,
      quad_contours = Inr 7\<rparr>"

definition sample_table_text :: string where
  "sample_table_text = ''Name  Speed'' @ [CHR 0x0A] @ ''A  45'' @ [CHR 0x0A] @ ''B  30''"

definition sample_map_text :: string where
  "sample_map_text = ''Speed 45 km/h Traffic Map Downtown, Main Street 30mph. Old Town''"

definition sample_hours_text :: string where
  "sample_hours_text =
     ''1 2 3 4 5 6 7 8 9 10 11 12 13 14 15 16 17 18 19 20 21 22 23 24 25.5 26''"

definition sample_world :: world where
  "sample_world =
     \<lparr>imread = (\<lambda>path.
        if path = ''map.png''
        then Some (sample_image sample_map_text
                     [(0, 255, 255), (60, 255, 255), (60, 200, 200)])
        else if path = ''plain.png''
        then Some (sample_image ''speed 45 km/h traffic map downtown'' [(0, 255, 255)])
        else if path = ''table.png''
        then Some (sample_image sample_table_text [])
        else if path = ''shot.png''
        then Some (sample_image ''Apple Maps 12 min 3.5 km heavy'' [])
        else if path = ''hours.png''
        then Some (sample_image sample_hours_text [])
        else None),
      now_isoformat = ''2024-01-01T00:00:00'',
      random_raw = (\<lambda>k. 7 * k + 45),
      int_max_str_digits = 4300\<rparr>"

section \<open>Sequencing, prefixes and substrings\<close>

lemma andthen_Inr_iff: "andthen x f = Inr r \<longleftrightarrow> (\<exists>v. x = Inr v \<and> f v = Inr r)"
  by (cases x) (auto simp: andthen_def)

lemma andthen_Inr [simp]: "andthen (Inr v) f = f v"
  by (simp add: andthen_def)

lemma andthen_Inl [simp]: "andthen (Inl e) f = Inl e"
  by (simp add: andthen_def)

lemma startswith_iff: "startswith s p \<longleftrightarrow> (\<exists>suf. s = p @ suf)"
  by (induction s p rule: startswith.induct) auto

lemma py_in_iff: "py_in p t \<longleftrightarrow> (\<exists>pre suf. t = pre @ p @ suf)"
proof (induction t)
  case Nil
  then show ?case by auto
next
  case (Cons c cs)
  show ?case
  proof
    assume "py_in p (c # cs)"
    then consider "startswith (c # cs) p" | "py_in p cs" by auto
    then show "\<exists>pre suf. c # cs = pre @ p @ suf"
    proof cases
      case 1
      then obtain suf where "c # cs = p @ suf" by (auto simp: startswith_iff)
      then have "c # cs = [] @ p @ suf" by simp
      then show ?thesis by blast
    next
      case 2
      then obtain pre suf where "cs = pre @ p @ suf" using Cons.IH by blast
      then have "c # cs = (c # pre) @ p @ suf" by simp
      then show ?thesis by blast
    qed
  next
    assume "\<exists>pre suf. c # cs = pre @ p @ suf"
    then obtain pre suf where eq: "c # cs = pre @ p @ suf" by blast
    show "py_in p (c # cs)"
    proof (cases pre)
      case Nil
      with eq have "startswith (c # cs) p" by (auto simp: startswith_iff)
      then show ?thesis by simp
    next
      case (Cons a pre')
      with eq have "cs = pre' @ p @ suf" by simp
      then have "py_in p cs" using Cons.IH by blast
      then show ?thesis by simp
    qed
  qed
qed

lemma py_in_trans: "py_in q p \<Longrightarrow> py_in p t \<Longrightarrow> py_in q t"
proof -
  assume "py_in q p" and "py_in p t"
  then obtain a b c d where "p = a @ q @ b" and "t = c @ p @ d"
    by (auto simp: py_in_iff)
  then have "t = (c @ a) @ q @ (b @ d)" by simp
  then show ?thesis unfolding py_in_iff by blast
qed

section \<open>The screenshot processor\<close>

lemma maps_in_apple_maps: "py_in ''maps'' ''apple maps''"
  by code_simp

text \<open>
  Claim C10. For every text the screenshot processor never reports the application
  \<^verbatim>\<open>apple_maps\<close>: a text that contains \<^verbatim>\<open>apple maps\<close> contains \<^verbatim>\<open>maps\<close>, which the
  earlier \<^verbatim>\<open>google_maps\<close> branch takes, so the application is one of
  \<^verbatim>\<open>google_maps\<close>, \<^verbatim>\<open>waze\<close> and \<^verbatim>\<open>unknown\<close>.
\<close>

theorem screenshot_never_apple_maps:
  "(py_in ''apple maps'' (lower text) \<longrightarrow> py_in ''maps'' (lower text)) \<and>
   (process_screenshot w image_path = Inr result \<longrightarrow>
      (\<exists>app_type d. app_type \<in> {''google_maps'', ''waze'', ''unknown''} \<and>
         app_type \<noteq> ''apple_maps'' \<and>
         map_of result ''app_detected'' = Some (VStr app_type) \<and>
         map_of result ''data'' = Some (VDict d) \<and>
         map_of d ''app_type'' = Some (VStr app_type)))"
proof (intro conjI impI)
  show "py_in ''maps'' (lower text)" if "py_in ''apple maps'' (lower text)"
    using that maps_in_apple_maps py_in_trans by blast
next
  assume ok: "process_screenshot w image_path = Inr result"
  then obtain t where res: "result =
      (let app_type =
              (if py_in ''google maps'' (lower t) \<or> py_in ''maps'' (lower t)
               then ''google_maps''
               else if py_in ''waze'' (lower t) then ''waze''
               else if py_in ''apple maps'' (lower t) then ''apple_maps''
               else ''unknown'')
        in [(''type'', VStr ''screenshot''),
                (''data'', VDict [(''app_type'', VStr app_type),
                                  (''traffic_info'', VDict (extract_traffic_info t)),
                                  (''timestamp'', VStr (now_isoformat w))]),
                (''app_detected'', VStr app_type)])"
    by (auto simp: process_screenshot_def andthen_Inr_iff Let_def)
  have imp: "py_in ''apple maps'' (lower t) \<Longrightarrow> py_in ''maps'' (lower t)"
    using maps_in_apple_maps py_in_trans by blast
  show "\<exists>app_type d. app_type \<in> {''google_maps'', ''waze'', ''unknown''} \<and>
         app_type \<noteq> ''apple_maps'' \<and>
         map_of result ''app_detected'' = Some (VStr app_type) \<and>
         map_of result ''data'' = Some (VDict d) \<and>
         map_of d ''app_type'' = Some (VStr app_type)"
    using imp unfolding res Let_def by auto
qed

theorem screenshot_never_apple_maps_witness:
  "py_in ''apple maps'' (lower ''Apple Maps 12 min 3.5 km heavy'') \<and>
   py_in ''maps'' (lower ''Apple Maps 12 min 3.5 km heavy'') \<and>
   map_of (process_image sample_world ''shot.png'' ''screenshot'') ''app_detected'' =
     Some (VStr ''google_maps'')"
proof -
  have a: "py_in ''apple maps'' (lower ''Apple Maps 12 min 3.5 km heavy'')"
    by code_simp
  have b: "process_screenshot sample_world ''shot.png'' =
             Inr (process_image sample_world ''shot.png'' ''screenshot'')"
    by code_simp
  have c: "map_of (process_image sample_world ''shot.png'' ''screenshot'') ''app_detected'' =
     Some (VStr ''google_maps'')"
    by code_simp
  from screenshot_never_apple_maps
    [of "''Apple Maps 12 min 3.5 km heavy''" sample_world "''shot.png''"
        "process_image sample_world ''shot.png'' ''screenshot''"] a b c
  show ?thesis by blast
qed

section \<open>The shape of each processor's result\<close>

lemma process_traffic_map_type:
  "process_traffic_map w p = Inr r \<Longrightarrow> map_of r ''type'' = Some (VStr ''traffic_map'')"
  by (auto simp: process_traffic_map_def andthen_Inr_iff Let_def)

lemma process_chart_type:
  "process_chart w p = Inr r \<Longrightarrow> map_of r ''type'' = Some (VStr ''chart'')"
  by (auto simp: process_chart_def andthen_Inr_iff Let_def)

lemma process_screenshot_type:
  "process_screenshot w p = Inr r \<Longrightarrow> map_of r ''type'' = Some (VStr ''screenshot'')"
  by (auto simp: process_screenshot_def andthen_Inr_iff Let_def)

lemma process_table_type:
  "process_table w p = Inr r \<Longrightarrow> map_of r ''type'' = Some (VStr ''table'')"
  by (auto simp: process_table_def andthen_Inr_iff Let_def split: if_splits)

lemma generic_ocr_processing_type:
  "generic_ocr_processing w p = Inr r \<Longrightarrow> map_of r ''type'' = Some (VStr ''generic'')"
  by (auto simp: generic_ocr_processing_def andthen_Inr_iff Let_def)

lemma process_image_try_Inr: "process_image_try w p h = Inr r \<Longrightarrow> process_image w p h = r"
  by (simp add: process_image_def)

section \<open>Dispatch on the hint\<close>

text \<open>
  Claim C4. With a hint among \<^verbatim>\<open>traffic_map\<close>, \<^verbatim>\<open>chart\<close>, \<^verbatim>\<open>screenshot\<close> and
  \<^verbatim>\<open>table\<close>, a call in which nothing fails returns a result whose \<^verbatim>\<open>type\<close> is the
  hint; with a hint outside these four and \<^verbatim>\<open>auto\<close>, the call takes the generic path
  and its result is of type \<^verbatim>\<open>generic\<close>.
\<close>

theorem process_image_type_follows_hint:
  "(h \<in> {''traffic_map'', ''chart'', ''screenshot'', ''table''} \<and> process_image_try w p h = Inr r
      \<longrightarrow> process_image w p h = r \<and> map_of r ''type'' = Some (VStr h)) \<and>
   (h \<notin> {''auto'', ''traffic_map'', ''chart'', ''screenshot'', ''table''}
      \<longrightarrow> process_image_try w p h = generic_ocr_processing w p \<and>
          (generic_ocr_processing w p = Inr r
             \<longrightarrow> process_image w p h = r \<and> map_of r ''type'' = Some (VStr ''generic'')))"
proof (intro conjI impI)
  assume a: "h \<in> {''traffic_map'', ''chart'', ''screenshot'', ''table''} \<and>
             process_image_try w p h = Inr r"
  then show "process_image w p h = r" by (simp add: process_image_try_Inr)
  from a show "map_of r ''type'' = Some (VStr h)"
    by (auto simp: process_image_try_def
             dest: process_traffic_map_type process_chart_type process_screenshot_type
                   process_table_type)
next
  assume b: "h \<notin> {''auto'', ''traffic_map'', ''chart'', ''screenshot'', ''table''}"
  then show g: "process_image_try w p h = generic_ocr_processing w p"
    by (simp add: process_image_try_def)
  assume c: "generic_ocr_processing w p = Inr r"
  with g show "process_image w p h = r" by (simp add: process_image_try_Inr)
  from c show "map_of r ''type'' = Some (VStr ''generic'')"
    by (rule generic_ocr_processing_type)
qed

theorem process_image_type_follows_hint_witness:
  "map_of (process_image sample_world ''map.png'' ''table'') ''type'' = Some (VStr ''table'') \<and>
   map_of (process_image sample_world ''map.png'' ''pdf'') ''type'' = Some (VStr ''generic'')"
proof -
  have a: "process_image_try sample_world ''map.png'' ''table'' =
             Inr (process_image sample_world ''map.png'' ''table'')"
    by code_simp
  have b: "generic_ocr_processing sample_world ''map.png'' =
             Inr (process_image sample_world ''map.png'' ''pdf'')"
    by code_simp
  have c: "''table'' \<in> {''traffic_map'', ''chart'', ''screenshot'', ''table''}"
    and d: "''pdf'' \<notin> {''auto'', ''traffic_map'', ''chart'', ''screenshot'', ''table''}"
    by simp_all
  from process_image_type_follows_hint
         [of "''table''" sample_world "''map.png''"
             "process_image sample_world ''map.png'' ''table''"] a c
  have 1: "map_of (process_image sample_world ''map.png'' ''table'') ''type'' =
             Some (VStr ''table'')"
    by blast
  from process_image_type_follows_hint
         [of "''pdf''" sample_world "''map.png''"
             "process_image sample_world ''map.png'' ''pdf''"] b d
  have 2: "map_of (process_image sample_world ''map.png'' ''pdf'') ''type'' =
             Some (VStr ''generic'')"
    by blast
  from 1 2 show ?thesis by blast
qed

section \<open>Exceptions stop at the entry point\<close>

lemma process_image_try_unreadable:
  "imread w p = None \<Longrightarrow> \<exists>msg. process_image_try w p h = Inl (Exn msg) \<and> msg \<noteq> []"
  by (auto simp: process_image_try_def detect_image_type_def process_traffic_map_def
                 process_chart_def process_screenshot_def process_table_def
                 generic_ocr_processing_def cvtColor_def image_to_string_def Let_def)

text \<open>
  Claim C9. Whatever is raised inside \<^verbatim>\<open>process_image\<close>, by the decoding, the
  recognition or the segmentation, is turned into an error result at the entry point and
  does not reach the caller; a path that cannot be read gives a result whose
  \<^verbatim>\<open>error\<close> is a non-empty string and whose \<^verbatim>\<open>data\<close> is None.
\<close>

theorem process_image_converts_exceptions:
  "(process_image_try w p h = Inl (Exn msg) \<longrightarrow>
      process_image w p h = [(''error'', VStr (''Processing failed: '' @ msg)), (''data'', VNone)]) \<and>
   (imread w p = None \<longrightarrow>
      (\<exists>m. m \<noteq> [] \<and> process_image w p h = [(''error'', VStr m), (''data'', VNone)])) \<and>
   (imread w p = Some im \<and> ocr_color_psm6 im = Inl (Exn msg) \<longrightarrow>
      process_image w p ''screenshot'' =
        [(''error'', VStr (''Processing failed: '' @ msg)), (''data'', VNone)]) \<and>
   (imread w p = Some im \<and> ocr_color_psm6 im = Inr t \<and> hsv im = Inl (Exn msg) \<longrightarrow>
      process_image w p ''traffic_map'' =
        [(''error'', VStr (''Processing failed: '' @ msg)), (''data'', VNone)])"
proof (intro conjI impI)
  show "process_image w p h = [(''error'', VStr (''Processing failed: '' @ msg)), (''data'', VNone)]"
    if "process_image_try w p h = Inl (Exn msg)"
    using that by (simp add: process_image_def)
  show "\<exists>m. m \<noteq> [] \<and> process_image w p h = [(''error'', VStr m), (''data'', VNone)]"
    if "imread w p = None"
  proof -
    from that obtain e where "process_image_try w p h = Inl (Exn e)"
      using process_image_try_unreadable by blast
    then have "process_image w p h =
                 [(''error'', VStr (''Processing failed: '' @ e)), (''data'', VNone)]"
      by (simp add: process_image_def)
    then show ?thesis by auto
  qed
  show "process_image w p ''screenshot'' =
          [(''error'', VStr (''Processing failed: '' @ msg)), (''data'', VNone)]"
    if "imread w p = Some im \<and> ocr_color_psm6 im = Inl (Exn msg)"
    using that
    by (simp add: process_image_def process_image_try_def process_screenshot_def
                  image_to_string_def)
  show "process_image w p ''traffic_map'' =
          [(''error'', VStr (''Processing failed: '' @ msg)), (''data'', VNone)]"
    if "imread w p = Some im \<and> ocr_color_psm6 im = Inr t \<and> hsv im = Inl (Exn msg)"
    using that
    by (simp add: process_image_def process_image_try_def process_traffic_map_def
                  image_to_string_def cvtColor_def detect_traffic_colors_def Let_def)
qed

theorem process_image_converts_exceptions_witness:
  "imread sample_world ''gone.png'' = None \<and>
   (\<exists>m. m \<noteq> [] \<and>
      process_image sample_world ''gone.png'' ''auto'' = [(''error'', VStr m), (''data'', VNone)])"
proof -
  have "imread sample_world ''gone.png'' = None"
    by code_simp
  with process_image_converts_exceptions [of sample_world "''gone.png''" "''auto''"]
  show ?thesis by blast
qed

section \<open>The classifier\<close>

text \<open>
  Claim C3. For the hint \<^verbatim>\<open>auto\<close> the label is a function of the lowercased text and
  of the table signal alone, the first match winning: a traffic word with a map word
  gives \<^verbatim>\<open>traffic_map\<close>, else with a chart word \<^verbatim>\<open>chart\<close>, else with a camera word
  \<^verbatim>\<open>screenshot\<close>; \<^verbatim>\<open>table\<close> is the label only when none of these applied and a table
  structure was found, and \<^verbatim>\<open>chart\<close> is the default. The text
  \<^verbatim>\<open>speed 45 km/h traffic map downtown\<close> gives \<^verbatim>\<open>traffic_map\<close>.
\<close>

theorem detect_image_type_first_match:
  assumes "imread w p = Some im" and "ocr_gray im = Inr t"
  shows "detect_image_type w p =
           (let text = lower t;
                traffic = any_in [''speed'', ''km/h'', ''mph'', ''traffic'', ''congestion''] text
            in if traffic \<and> any_in [''map'', ''route'', ''navigation'', ''street''] text
               then Inr ''traffic_map''
               else if traffic \<and> any_in [''chart'', ''graph'', ''data'', ''time''] text
               then Inr ''chart''
               else if traffic \<and> any_in [''camera'', ''live'', ''current''] text
               then Inr ''screenshot''
               else (case line_pixels im of
                       Inl e \<Rightarrow> Inl e
                     | Inr (h_lines, v_lines) \<Rightarrow>
                         if h_lines > 100 \<and> v_lines > 100 then Inr ''table'' else Inr ''chart'')) \<and>
         (lower t = ''speed 45 km/h traffic map downtown'' \<longrightarrow>
            detect_image_type w p = Inr ''traffic_map'') \<and>
         (\<forall>w' p' im' t'. imread w' p' = Some im' \<and> ocr_gray im' = Inr t' \<and>
            lower t' = lower t \<and> line_pixels im' = line_pixels im \<longrightarrow>
            detect_image_type w' p' = detect_image_type w p)"
proof -
  have eq: "detect_image_type w' p' =
           (let text = lower t';
                traffic = any_in [''speed'', ''km/h'', ''mph'', ''traffic'', ''congestion''] text
            in if traffic \<and> any_in [''map'', ''route'', ''navigation'', ''street''] text
               then Inr ''traffic_map''
               else if traffic \<and> any_in [''chart'', ''graph'', ''data'', ''time''] text
               then Inr ''chart''
               else if traffic \<and> any_in [''camera'', ''live'', ''current''] text
               then Inr ''screenshot''
               else (case line_pixels im' of
                       Inl e \<Rightarrow> Inl e
                     | Inr (h_lines, v_lines) \<Rightarrow>
                         if h_lines > 100 \<and> v_lines > 100 then Inr ''table'' else Inr ''chart''))"
    if "imread w' p' = Some im'" and "ocr_gray im' = Inr t'" for w' p' im' t'
    using that
    by (simp add: detect_image_type_def cvtColor_def image_to_string_def Let_def
                  detect_table_structure_def andthen_def split: sum.splits prod.splits)
  have ex: "any_in [''speed'', ''km/h'', ''mph'', ''traffic'', ''congestion'']
              ''speed 45 km/h traffic map downtown'' \<and>
            any_in [''map'', ''route'', ''navigation'', ''street'']
              ''speed 45 km/h traffic map downtown''"
    by code_simp
  show ?thesis
  proof (intro conjI impI allI)
    show "detect_image_type w p =
           (let text = lower t;
                traffic = any_in [''speed'', ''km/h'', ''mph'', ''traffic'', ''congestion''] text
            in if traffic \<and> any_in [''map'', ''route'', ''navigation'', ''street''] text
               then Inr ''traffic_map''
               else if traffic \<and> any_in [''chart'', ''graph'', ''data'', ''time''] text
               then Inr ''chart''
               else if traffic \<and> any_in [''camera'', ''live'', ''current''] text
               then Inr ''screenshot''
               else (case line_pixels im of
                       Inl e \<Rightarrow> Inl e
                     | Inr (h_lines, v_lines) \<Rightarrow>
                         if h_lines > 100 \<and> v_lines > 100 then Inr ''table'' else Inr ''chart''))"
      using assms by (rule eq)
    show "detect_image_type w p = Inr ''traffic_map''"
      if "lower t = ''speed 45 km/h traffic map downtown''"
      using eq [OF assms] that ex by (simp add: Let_def)
    show "detect_image_type w' p' = detect_image_type w p"
      if "imread w' p' = Some im' \<and> ocr_gray im' = Inr t' \<and>
            lower t' = lower t \<and> line_pixels im' = line_pixels im" for w' p' im' t'
    proof -
      from that have r: "imread w' p' = Some im'" and o: "ocr_gray im' = Inr t'"
        and lt: "lower t' = lower t" and lp: "line_pixels im' = line_pixels im"
        by auto
      show ?thesis
        unfolding eq [OF r o] eq [OF assms] lt lp ..
    qed
  qed
qed

theorem detect_image_type_first_match_witness:
  "imread sample_world ''plain.png'' =
     Some (sample_image ''speed 45 km/h traffic map downtown'' [(0, 255, 255)]) \<and>
   ocr_gray (sample_image ''speed 45 km/h traffic map downtown'' [(0, 255, 255)]) =
     Inr ''speed 45 km/h traffic map downtown'' \<and>
   lower ''speed 45 km/h traffic map downtown'' = ''speed 45 km/h traffic map downtown'' \<and>
   detect_image_type sample_world ''plain.png'' = Inr ''traffic_map''"
proof -
  have a: "imread sample_world ''plain.png'' =
     Some (sample_image ''speed 45 km/h traffic map downtown'' [(0, 255, 255)])"
    by code_simp
  have b: "ocr_gray (sample_image ''speed 45 km/h traffic map downtown'' [(0, 255, 255)]) =
     Inr ''speed 45 km/h traffic map downtown''"
    by code_simp
  have c: "lower ''speed 45 km/h traffic map downtown'' = ''speed 45 km/h traffic map downtown''"
    by code_simp
  from detect_image_type_first_match [OF a b] c
  have "detect_image_type sample_world ''plain.png'' = Inr ''traffic_map''"
    by blast
  with a b c show ?thesis by blast
qed

section \<open>The colour segmenter\<close>

lemma count_in_range_replicate:
  "count_in_range lo hi (replicate n px) = (if inRange lo hi px then n else 0)"
  by (simp add: count_in_range_def)

text \<open>
  Claim C5, as the code has it. The segmenter returns five copies of one label:
  \<^verbatim>\<open>Congested\<close> when the red count exceeds the green and the yellow count, else
  \<^verbatim>\<open>Moderate\<close> when the yellow count exceeds the green count, else \<^verbatim>\<open>Good\<close>. A tie
  with the green count goes to \<^verbatim>\<open>Good\<close>; a raster of pure red gives \<^verbatim>\<open>Congested\<close>,
  of pure green \<^verbatim>\<open>Good\<close>, of pure yellow \<^verbatim>\<open>Moderate\<close>.
\<close>

theorem detect_traffic_colors_dominant:
  assumes "hsv im = Inr pixels"
  shows "(let green_pixels = count_in_range (40, 50, 50) (80, 255, 255) pixels;
              yellow_pixels = count_in_range (20, 50, 50) (40, 255, 255) pixels;
              red_pixels = count_in_range (0, 50, 50) (10, 255, 255) pixels
          in detect_traffic_colors im =
               Inr (replicate 5
                      (if red_pixels > green_pixels \<and> red_pixels > yellow_pixels then ''Congested''
                       else if yellow_pixels > green_pixels then ''Moderate''
                       else ''Good'')) \<and>
             (red_pixels \<le> green_pixels \<and> yellow_pixels \<le> green_pixels \<longrightarrow>
                detect_traffic_colors im = Inr (replicate 5 ''Good''))) \<and>
         (0 < n \<and> pixels = replicate n (0, 255, 255) \<longrightarrow>
            detect_traffic_colors im = Inr (replicate 5 ''Congested'')) \<and>
         (0 < n \<and> pixels = replicate n (60, 255, 255) \<longrightarrow>
            detect_traffic_colors im = Inr (replicate 5 ''Good'')) \<and>
         (0 < n \<and> pixels = replicate n (30, 255, 255) \<longrightarrow>
            detect_traffic_colors im = Inr (replicate 5 ''Moderate''))"
proof -
  have five: "concat (replicate 5 [x]) = replicate 5 x" for x :: string
    by (simp add: numeral_eq_Suc)
  have rule: "detect_traffic_colors im =
      Inr (replicate 5
             (if count_in_range (0, 50, 50) (10, 255, 255) pixels >
                   count_in_range (40, 50, 50) (80, 255, 255) pixels \<and>
                 count_in_range (0, 50, 50) (10, 255, 255) pixels >
                   count_in_range (20, 50, 50) (40, 255, 255) pixels
              then ''Congested''
              else if count_in_range (20, 50, 50) (40, 255, 255) pixels >
                        count_in_range (40, 50, 50) (80, 255, 255) pixels
              then ''Moderate''
              else ''Good''))"
    using assms by (simp add: detect_traffic_colors_def Let_def five)
  have red: "detect_traffic_colors im = Inr (replicate 5 ''Congested'')"
    if "0 < n \<and> pixels = replicate n (0, 255, 255)"
    using that unfolding rule by (simp add: count_in_range_replicate inRange_def)
  have green: "detect_traffic_colors im = Inr (replicate 5 ''Good'')"
    if "0 < n \<and> pixels = replicate n (60, 255, 255)"
    using that unfolding rule by (simp add: count_in_range_replicate inRange_def)
  have yellow: "detect_traffic_colors im = Inr (replicate 5 ''Moderate'')"
    if "0 < n \<and> pixels = replicate n (30, 255, 255)"
    using that unfolding rule by (simp add: count_in_range_replicate inRange_def)
  have tie: "detect_traffic_colors im = Inr (replicate 5 ''Good'')"
    if "count_in_range (0, 50, 50) (10, 255, 255) pixels \<le>
          count_in_range (40, 50, 50) (80, 255, 255) pixels \<and>
        count_in_range (20, 50, 50) (40, 255, 255) pixels \<le>
          count_in_range (40, 50, 50) (80, 255, 255) pixels"
    using that unfolding rule by simp
  show ?thesis
    unfolding Let_def using rule red green yellow tie by blast
qed

theorem detect_traffic_colors_dominant_witness:
  "hsv (sample_image [] (replicate 3 (30, 255, 255))) = Inr (replicate 3 (30, 255, 255)) \<and>
   detect_traffic_colors (sample_image [] (replicate 3 (30, 255, 255))) =
     Inr (replicate 5 ''Moderate'')"
proof -
  have a: "hsv (sample_image [] (replicate 3 (30, 255, 255))) = Inr (replicate 3 (30, 255, 255))"
    by (simp add: sample_image_def)
  from detect_traffic_colors_dominant [OF a, of 3] a show ?thesis
    by simp
qed

theorem red_yellow_tie_is_moderate:
  "count_in_range (0, 50, 50) (10, 255, 255) [(5, 255, 255), (30, 255, 255)] =
     count_in_range (20, 50, 50) (40, 255, 255) [(5, 255, 255), (30, 255, 255)] \<and>
   detect_traffic_colors (sample_image [] [(5, 255, 255), (30, 255, 255)]) =
     Inr [''Moderate'', ''Moderate'', ''Moderate'', ''Moderate'', ''Moderate''] \<and>
   detect_traffic_colors (sample_image [] [(5, 255, 255), (30, 255, 255)]) \<noteq>
     Inr [''Good'', ''Good'', ''Good'', ''Good'', ''Good'']"
  by code_simp

section \<open>The chart processor\<close>

text \<open>
  Claim C8. The series of the chart processor is the first 24 numeric tokens of the
  text, in order, when there are more than 24, and all of them when there are fewer;
  the labels \<^verbatim>\<open>Hour 0\<close>, \<^verbatim>\<open>Hour 1\<close>, ... are as many as the values.
\<close>

theorem process_chart_series:
  assumes "imread w p = Some im" and "ocr_color_psm6 im = Inr text"
    and "process_chart w p = Inr r"
  shows "\<exists>d vs ls.
           map_of r ''data'' = Some (VDict d) \<and>
           map_of d ''values'' = Some (VList vs) \<and>
           map_of d ''labels'' = Some (VList ls) \<and>
           vs = map (\<lambda>n. VFloat (py_float n)) (take 24 (re_findall number_pattern text)) \<and>
           ls = map (\<lambda>i. VStr (''Hour '' @ str_nat i)) [0..<length vs] \<and>
           length ls = length vs \<and>
           (24 < length (re_findall number_pattern text) \<longrightarrow> length vs = 24) \<and>
           (length (re_findall number_pattern text) < 24 \<longrightarrow>
              vs = map (\<lambda>n. VFloat (py_float n)) (re_findall number_pattern text))"
proof -
  from assms obtain chart_type where
    r: "r = [(''type'', VStr ''chart''),
             (''data'', VDict
                [(''values'', VList (map VFloat (take 24 (map py_float (re_findall number_pattern text))))),
                 (''labels'', VList (map VStr (map (\<lambda>i. ''Hour '' @ str_nat i)
                    [0..<length (take 24 (map py_float (re_findall number_pattern text)))]))),
                 (''chart_type'', VStr chart_type),
                 (''timestamp'', VStr (now_isoformat w))]),
             (''extracted_count'',
                VInt (int (length (take 24 (map py_float (re_findall number_pattern text))))))]"
    by (auto simp: process_chart_def cvtColor_def image_to_string_def andthen_Inr_iff Let_def)
  show ?thesis
    unfolding r by (simp add: take_map o_def min_def)
qed

theorem process_chart_series_witness:
  "24 < length (re_findall number_pattern sample_hours_text) \<and>
   (\<exists>d vs ls.
      map_of (process_image sample_world ''hours.png'' ''chart'') ''data'' = Some (VDict d) \<and>
      map_of d ''values'' = Some (VList vs) \<and> map_of d ''labels'' = Some (VList ls) \<and>
      length ls = length vs \<and> length vs = 24)"
proof -
  have n: "24 < length (re_findall number_pattern sample_hours_text)"
    by code_simp
  have a: "imread sample_world ''hours.png'' = Some (sample_image sample_hours_text [])"
    by code_simp
  have b: "ocr_color_psm6 (sample_image sample_hours_text []) = Inr sample_hours_text"
    by (simp add: sample_image_def)
  have c: "process_chart sample_world ''hours.png'' =
             Inr (process_image sample_world ''hours.png'' ''chart'')"
    by code_simp
  from process_chart_series [OF a b c] n show ?thesis
    by blast
qed

section \<open>The traffic map processor\<close>

lemma randint_20_60: "20 \<le> randint 20 60 raw \<and> randint 20 60 raw < 60"
  by (simp add: randint_def)

text \<open>What the loop has appended when it ends without an exception.\<close>

lemma combine_Inr:
  "combine w speeds tc i k locs (ls, ss, cs) = Inr (ls', ss', cs') \<Longrightarrow>
   ls' = ls @ locs \<and>
   cs' = cs @ map (\<lambda>j. if j < length tc then tc ! j else ''Moderate'') [i..<i + length locs] \<and>
   (\<exists>new. ss' = ss @ new \<and> length new = length locs \<and>
      (\<forall>j<length locs.
         if i + j < length speeds
         then py_int (int_max_str_digits w) (speeds ! (i + j)) = Inr (new ! j)
         else (\<exists>k'. new ! j = randint 20 60 (random_raw w k'))))"
proof (induction locs arbitrary: i k ls ss cs)
  case Nil
  then show ?case by simp
next
  case (Cons location rest)
  let ?draw = "if i < length speeds then py_int (int_max_str_digits w) (speeds ! i)
               else Inr (randint 20 60 (random_raw w k))"
  let ?condition = "if i < length tc then tc ! i else ''Moderate''"
  from Cons.prems obtain speed where
    draw: "?draw = Inr speed" and
    rec: "combine w speeds tc (Suc i) (if i < length speeds then k else Suc k) rest
            (ls @ [location], ss @ [speed], cs @ [?condition]) = Inr (ls', ss', cs')"
    by (cases ?draw) (simp_all add: Let_def)
  from Cons.IH [OF rec] obtain new where
    l: "ls' = (ls @ [location]) @ rest" and
    c: "cs' = (cs @ [?condition]) @
          map (\<lambda>j. if j < length tc then tc ! j else ''Moderate'') [Suc i..<Suc i + length rest]" and
    s: "ss' = (ss @ [speed]) @ new" and
    n: "length new = length rest" and
    each: "\<forall>j<length rest.
         if Suc i + j < length speeds
         then py_int (int_max_str_digits w) (speeds ! (Suc i + j)) = Inr (new ! j)
         else (\<exists>k'. new ! j = randint 20 60 (random_raw w k'))"
    by blast
  have first: "if i < length speeds
               then py_int (int_max_str_digits w) (speeds ! i) = Inr speed
               else (\<exists>k'. speed = randint 20 60 (random_raw w k'))"
    using draw by (auto split: if_splits)
  have all: "\<forall>j<length (location # rest).
         if i + j < length speeds
         then py_int (int_max_str_digits w) (speeds ! (i + j)) = Inr ((speed # new) ! j)
         else (\<exists>k'. (speed # new) ! j = randint 20 60 (random_raw w k'))"
  proof (intro allI impI)
    fix j assume j: "j < length (location # rest)"
    show "if i + j < length speeds
         then py_int (int_max_str_digits w) (speeds ! (i + j)) = Inr ((speed # new) ! j)
         else (\<exists>k'. (speed # new) ! j = randint 20 60 (random_raw w k'))"
    proof (cases j)
      case 0
      with first show ?thesis by simp
    next
      case (Suc j')
      with j have "j' < length rest" by simp
      with each have "if Suc i + j' < length speeds
         then py_int (int_max_str_digits w) (speeds ! (Suc i + j')) = Inr (new ! j')
         else (\<exists>k'. new ! j' = randint 20 60 (random_raw w k'))"
        by blast
      with Suc show ?thesis by (auto split: if_splits)
    qed
  qed
  have upt: "[i..<i + length (location # rest)] = i # [Suc i..<Suc i + length rest]"
    by (subst upt_rec) simp
  have "ls' = ls @ location # rest"
    using l by simp
  moreover have "cs' = cs @ map (\<lambda>j. if j < length tc then tc ! j else ''Moderate'')
                              [i..<i + length (location # rest)]"
    unfolding upt using c by simp
  moreover have "ss' = ss @ (speed # new) \<and> length (speed # new) = length (location # rest)"
    using s n by simp
  ultimately show ?case
    using all by blast
qed

text \<open>
  Claim C6. For each index below the smaller of 5 and the number of locations found, the
  traffic map processor pairs the location with the extracted speed of that index when
  there is one and else with a random draw from 20 up to 60, and with the segmenter's
  condition of that index when there is one and else with \<^verbatim>\<open>Moderate\<close>; the three
  sequences have one length, and \<^verbatim>\<open>extracted_count\<close> is the number of locations used.
\<close>

theorem process_traffic_map_pairs:
  assumes "imread w p = Some im" and "ocr_color_psm6 im = Inr text"
    and "detect_traffic_colors im = Inr tc" and "process_traffic_map w p = Inr r"
  shows "\<exists>ss. length ss = min 5 (length (re_findall location_pattern text)) \<and>
           (\<forall>i<min 5 (length (re_findall location_pattern text)).
              if i < length (re_findall speed_pattern text)
              then py_int (int_max_str_digits w) (re_findall speed_pattern text ! i) = Inr (ss ! i)
              else 20 \<le> ss ! i \<and> ss ! i < 60 \<and>
                   (\<exists>k. ss ! i = randint 20 60 (random_raw w k))) \<and>
           r = [(''type'', VStr ''traffic_map''),
                (''data'', VDict
                   [(''locations'', VList (map VStr (take 5 (re_findall location_pattern text)))),
                    (''speeds'', VList (map VInt ss)),
                    (''conditions'',
                       VList (map (\<lambda>i. VStr (if i < length tc then tc ! i else ''Moderate''))
                                [0..<min 5 (length (re_findall location_pattern text))])),
                    (''timestamp'', VStr (now_isoformat w))]),
                (''extracted_count'',
                   VInt (int (min 5 (length (re_findall location_pattern text)))))]"
proof -
  let ?locs = "take 5 (re_findall location_pattern text)"
  let ?speeds = "re_findall speed_pattern text"
  from assms obtain ls ss cs where
    loop: "combine w ?speeds tc 0 0 ?locs ([], [], []) = Inr (ls, ss, cs)" and
    r: "r = [(''type'', VStr ''traffic_map''),
             (''data'', VDict [(''locations'', VList (map VStr ls)),
                                (''speeds'', VList (map VInt ss)),
                                (''conditions'', VList (map VStr cs)),
                                (''timestamp'', VStr (now_isoformat w))]),
             (''extracted_count'', VInt (int (length ls)))]"
    by (auto simp: process_traffic_map_def cvtColor_def image_to_string_def andthen_Inr_iff
                   Let_def)
  have len: "length ?locs = min 5 (length (re_findall location_pattern text))"
    by (simp add: min.commute)
  from combine_Inr [OF loop] obtain new where
    l: "ls = ?locs" and
    c: "cs = map (\<lambda>j. if j < length tc then tc ! j else ''Moderate'') [0..<0 + length ?locs]" and
    s: "ss = new" and n: "length new = length ?locs" and
    each: "\<forall>j<length ?locs.
         if 0 + j < length ?speeds
         then py_int (int_max_str_digits w) (?speeds ! (0 + j)) = Inr (new ! j)
         else (\<exists>k'. new ! j = randint 20 60 (random_raw w k'))"
    by auto
  have bounds: "\<forall>i<min 5 (length (re_findall location_pattern text)).
              if i < length ?speeds
              then py_int (int_max_str_digits w) (?speeds ! i) = Inr (ss ! i)
              else 20 \<le> ss ! i \<and> ss ! i < 60 \<and>
                   (\<exists>k. ss ! i = randint 20 60 (random_raw w k))"
  proof (intro allI impI)
    fix i assume "i < min 5 (length (re_findall location_pattern text))"
    then have "i < length ?locs" using len by simp
    with each have e: "if 0 + i < length ?speeds
         then py_int (int_max_str_digits w) (?speeds ! (0 + i)) = Inr (new ! i)
         else (\<exists>k'. new ! i = randint 20 60 (random_raw w k'))"
      by blast
    show "if i < length ?speeds
              then py_int (int_max_str_digits w) (?speeds ! i) = Inr (ss ! i)
              else 20 \<le> ss ! i \<and> ss ! i < 60 \<and>
                   (\<exists>k. ss ! i = randint 20 60 (random_raw w k))"
    proof (cases "i < length ?speeds")
      case True
      with e s show ?thesis by simp
    next
      case False
      with e s obtain k where k: "ss ! i = randint 20 60 (random_raw w k)" by auto
      with randint_20_60 [of "random_raw w k"] False show ?thesis by auto
    qed
  qed
  have lss: "length ss = min 5 (length (re_findall location_pattern text))"
    using s n len by simp
  have r': "r = [(''type'', VStr ''traffic_map''),
                (''data'', VDict
                   [(''locations'', VList (map VStr (take 5 (re_findall location_pattern text)))),
                    (''speeds'', VList (map VInt ss)),
                    (''conditions'',
                       VList (map (\<lambda>i. VStr (if i < length tc then tc ! i else ''Moderate''))
                                [0..<min 5 (length (re_findall location_pattern text))])),
                    (''timestamp'', VStr (now_isoformat w))]),
                (''extracted_count'',
                   VInt (int (min 5 (length (re_findall location_pattern text)))))]"
    unfolding r l c using len by (simp add: o_def)
  from lss bounds r' show ?thesis by blast
qed

theorem process_traffic_map_pairs_witness:
  "re_findall location_pattern sample_map_text =
     [''Speed'', ''Traffic Map Downtown'', ''Main Street'', ''Old Town''] \<and>
   re_findall speed_pattern sample_map_text = [''45'', ''30''] \<and>
   (\<exists>ss :: int list. length ss = 4 \<and> ss ! 0 = 45 \<and> ss ! 1 = 30 \<and> 20 \<le> ss ! 2 \<and> ss ! 2 < 60 \<and>
      20 \<le> ss ! 3 \<and> ss ! 3 < 60 \<and>
      map_of (process_image sample_world ''map.png'' ''traffic_map'') ''extracted_count'' =
        Some (VInt 4))"
proof -
  let ?px = "[(0, 255, 255), (60, 255, 255), (60, 200, 200)] :: (nat \<times> nat \<times> nat) list"
  have locs: "re_findall location_pattern sample_map_text =
     [''Speed'', ''Traffic Map Downtown'', ''Main Street'', ''Old Town'']"
    by code_simp
  have spds: "re_findall speed_pattern sample_map_text = [''45'', ''30'']"
    by code_simp
  have i45: "py_int (int_max_str_digits sample_world) ''45'' = Inr 45"
    and i30: "py_int (int_max_str_digits sample_world) ''30'' = Inr 30"
    by code_simp+
  have a: "imread sample_world ''map.png'' = Some (sample_image sample_map_text ?px)"
    by code_simp
  have b: "ocr_color_psm6 (sample_image sample_map_text ?px) = Inr sample_map_text"
    by (simp add: sample_image_def)
  have c: "detect_traffic_colors (sample_image sample_map_text ?px) =
             Inr [''Good'', ''Good'', ''Good'', ''Good'', ''Good'']"
    by code_simp
  have d: "process_traffic_map sample_world ''map.png'' =
             Inr (process_image sample_world ''map.png'' ''traffic_map'')"
    by code_simp
  from process_traffic_map_pairs [OF a b c d] obtain ss where
    len: "length ss = min 5 (length (re_findall location_pattern sample_map_text))" and
    each: "\<forall>i<min 5 (length (re_findall location_pattern sample_map_text)).
              if i < length (re_findall speed_pattern sample_map_text)
              then py_int (int_max_str_digits sample_world)
                     (re_findall speed_pattern sample_map_text ! i) = Inr (ss ! i)
              else 20 \<le> ss ! i \<and> ss ! i < 60 \<and>
                   (\<exists>k. ss ! i = randint 20 60 (random_raw sample_world k))" and
    cnt: "map_of (process_image sample_world ''map.png'' ''traffic_map'') ''extracted_count'' =
            Some (VInt (int (min 5 (length (re_findall location_pattern sample_map_text)))))"
    by auto
  have l4: "length ss = 4" using len unfolding locs by simp
  have s0: "ss ! 0 = 45"
    using each [rule_format, of 0] i45 unfolding locs spds by simp
  have s1: "ss ! 1 = 30"
    using each [rule_format, of 1] i30 unfolding locs spds by simp
  have s2: "20 \<le> ss ! 2 \<and> ss ! 2 < 60"
    using each [rule_format, of 2] unfolding locs spds by simp
  have s3: "20 \<le> ss ! 3 \<and> ss ! 3 < 60"
    using each [rule_format, of 3] unfolding locs spds by simp
  have c4: "map_of (process_image sample_world ''map.png'' ''traffic_map'') ''extracted_count'' =
        Some (VInt 4)"
    using cnt unfolding locs by simp
  from locs spds l4 s0 s1 s2 s3 c4 show ?thesis by blast
qed

section \<open>The table processor\<close>

lemma parse_lines_acc:
  "parse_lines ls acc =
     acc @ filter (\<lambda>cells. 1 < length cells)
             (map (\<lambda>l. re_split (strip l)) (filter (\<lambda>l. strip l \<noteq> []) ls))"
  by (induction ls arbitrary: acc) (auto simp: Let_def)

lemma split_cells_sep_free: "sep_free cell \<Longrightarrow> split_cells cur cell = [cur @ cell]"
  by (induction cell arbitrary: cur rule: sep_free.induct) auto

lemma is_space_tab: "is_space (CHR 0x09)"
  by (simp add: is_space_def)

lemma split_cells_at_sep:
  assumes "is_sep sep" and "rest = [] \<or> \<not> is_space (hd rest)"
  shows "split_cells cur (sep @ rest) = cur # split_cells [] rest"
proof -
  have tw: "takeWhile is_space rest = []" and dw: "dropWhile is_space rest = rest"
    using assms(2) by (cases rest; simp)+
  from assms(1) consider "sep = [CHR 0x09]" | "2 \<le> length sep" "list_all is_space sep"
    by (auto simp: is_sep_def)
  then show ?thesis
  proof cases
    case 1
    then show ?thesis using tw by simp
  next
    case 2
    then obtain s0 s1 sep' where sep: "sep = s0 # s1 # sep'"
      by (cases sep; cases "tl sep"; auto)
    with 2 have sp: "is_space s0" "is_space s1" "\<forall>x\<in>set sep'. is_space x"
      by (auto simp: list_all_iff)
    then have "dropWhile is_space (s1 # sep' @ rest) = rest"
      using dw by (simp add: dropWhile_append2)
    then show ?thesis
      unfolding sep using sp by simp
  qed
qed

lemma split_cells_cell_sep:
  "sep_free cell \<Longrightarrow> cell = [] \<or> \<not> is_space (last cell) \<Longrightarrow> is_sep sep \<Longrightarrow>
   rest = [] \<or> \<not> is_space (hd rest) \<Longrightarrow>
   split_cells cur (cell @ sep @ rest) = (cur @ cell) # split_cells [] rest"
proof (induction cell arbitrary: cur)
  case Nil
  then show ?case by (simp add: split_cells_at_sep)
next
  case (Cons c cell')
  have tab: "c \<noteq> CHR 0x09"
    using Cons.prems(1) by (cases cell') auto
  have nosep: "\<not> (is_space c \<and> takeWhile is_space (cell' @ sep @ rest) \<noteq> [])"
  proof (cases cell')
    case Nil
    with Cons.prems(2) show ?thesis by simp
  next
    case (Cons d ds)
    with Cons.prems(1) show ?thesis by auto
  qed
  have sf: "sep_free cell'"
    using Cons.prems(1) by (cases cell') auto
  have lst: "cell' = [] \<or> \<not> is_space (last cell')"
    using Cons.prems(2) by (cases cell') auto
  have "split_cells cur ((c # cell') @ sep @ rest) = split_cells (cur @ [c]) (cell' @ sep @ rest)"
    using tab nosep by auto
  also have "\<dots> = ((cur @ [c]) @ cell') # split_cells [] rest"
    using Cons.IH [OF sf lst Cons.prems(3) Cons.prems(4)] .
  finally show ?case by simp
qed

lemma foldl_max_lengths:
  "rows \<noteq> [] \<Longrightarrow> \<forall>row\<in>set rows. length row = n \<Longrightarrow>
   foldl max a (map length rows) = max a n"
proof (induction rows arbitrary: a)
  case Nil
  then show ?case by simp
next
  case (Cons row rows)
  show ?case
  proof (cases rows)
    case Nil
    with Cons.prems show ?thesis by simp
  next
    case (Cons r rs)
    then have "foldl max (max a (length row)) (map length rows) = max (max a (length row)) n"
      using Cons.IH Cons.prems by simp
    with Cons.prems show ?thesis by simp
  qed
qed

lemma DataFrame_regular:
  assumes "rows \<noteq> []" and "\<forall>row\<in>set rows. length row = length columns"
  shows "DataFrame rows columns = Inr (columns, map (map VStr) rows)"
proof -
  have w: "foldl max 0 (map length rows) = length columns"
    using foldl_max_lengths [OF assms, of 0] by simp
  have "map (\<lambda>row. map VStr row @ replicate (length columns - length row) VNone) rows =
        map (map VStr) rows"
    using assms(2) by (intro map_cong) auto
  then show ?thesis
    by (simp add: DataFrame_def w)
qed

lemma sample_table_data:
  "parse_lines (split_lines (strip sample_table_text)) [] =
     [[''Name'', ''Speed''], [''A'', ''45''], [''B'', ''30'']]"
  by code_simp

lemma sample_table_dict:
  "dict_zip [''Name'', ''Speed''] [a, b] = [(''Name'', a), (''Speed'', b)]"
  by (simp add: dict_zip_def)

lemma process_table_body:
  assumes "imread w p = Some im" and "ocr_gray_psm6 im = Inr text"
    and "table_data = parse_lines (split_lines (strip text)) []"
  shows "process_table w p =
     (if table_data \<noteq> [] \<and> length table_data > 1
      then andthen (DataFrame (tl table_data) (hd table_data)) (\<lambda>df.
             Inr [(''type'', VStr ''table''),
                  (''data'', VList (to_dict_records df)),
                  (''columns'', VList (map VStr (fst df))),
                  (''rows'', VInt (int (length (snd df))))])
      else Inr [(''type'', VStr ''table''),
                (''data'', VList []),
                (''error'', VStr ''No valid table structure detected'')])"
  using assms
  by (simp add: process_table_def cvtColor_def image_to_string_def Let_def)

lemma process_image_table: "process_table w p = Inr r \<Longrightarrow> process_image w p ''table'' = r"
  by (simp add: process_image_def process_image_try_def)

lemma process_table_few:
  assumes "imread w p = Some im" and "ocr_gray_psm6 im = Inr text"
    and "table_data = parse_lines (split_lines (strip text)) []"
    and "length table_data < 2"
  shows "process_table w p =
           Inr [(''type'', VStr ''table''), (''data'', VList []),
                (''error'', VStr ''No valid table structure detected'')]"
proof -
  from assms(4) have "\<not> (table_data \<noteq> [] \<and> length table_data > 1)"
    by simp
  then show ?thesis
    by (simp only: process_table_body [OF assms(1-3)] if_False)
qed

lemma process_table_regular:
  assumes "imread w p = Some im" and "ocr_gray_psm6 im = Inr text"
    and "table_data = parse_lines (split_lines (strip text)) []"
    and "2 \<le> length table_data"
    and "\<forall>row\<in>set (tl table_data). length row = length (hd table_data)"
  shows "process_table w p =
           Inr [(''type'', VStr ''table''),
                (''data'', VList (map (\<lambda>row. VDict (dict_zip (hd table_data) (map VStr row)))
                                    (tl table_data))),
                (''columns'', VList (map VStr (hd table_data))),
                (''rows'', VInt (int (length (tl table_data))))]"
proof -
  from assms(4) have c: "table_data \<noteq> [] \<and> length table_data > 1"
    by auto
  from assms(4) have ne: "tl table_data \<noteq> []"
    by (cases table_data) auto
  have df: "DataFrame (tl table_data) (hd table_data) =
              Inr (hd table_data, map (map VStr) (tl table_data))"
    using ne assms(5) by (rule DataFrame_regular)
  have "process_table w p =
          andthen (DataFrame (tl table_data) (hd table_data)) (\<lambda>df.
             Inr [(''type'', VStr ''table''),
                  (''data'', VList (to_dict_records df)),
                  (''columns'', VList (map VStr (fst df))),
                  (''rows'', VInt (int (length (snd df))))])"
    unfolding process_table_body [OF assms(1-3)] using c by (rule if_P)
  then show ?thesis
    unfolding df by (simp add: to_dict_records_def o_def)
qed

lemma process_table_sample:
  assumes "imread w p = Some im" and "ocr_gray_psm6 im = Inr sample_table_text"
  shows "map_of (process_image w p ''table'') ''data'' =
           Some (VList [VDict [(''Name'', VStr ''A''), (''Speed'', VStr ''45'')],
                        VDict [(''Name'', VStr ''B''), (''Speed'', VStr ''30'')]])"
proof -
  let ?td = "[[''Name'', ''Speed''], [''A'', ''45''], [''B'', ''30'']]"
  have td: "?td = parse_lines (split_lines (strip sample_table_text)) []"
    by (simp only: sample_table_data)
  have "process_table w p =
           Inr [(''type'', VStr ''table''),
                (''data'', VList (map (\<lambda>row. VDict (dict_zip (hd ?td) (map VStr row)))
                                    (tl ?td))),
                (''columns'', VList (map VStr (hd ?td))),
                (''rows'', VInt (int (length (tl ?td))))]"
    by (rule process_table_regular [OF assms td]) simp_all
  then have "process_image w p ''table'' =
                [(''type'', VStr ''table''),
                (''data'', VList (map (\<lambda>row. VDict (dict_zip (hd ?td) (map VStr row)))
                                    (tl ?td))),
                (''columns'', VList (map VStr (hd ?td))),
                (''rows'', VInt (int (length (tl ?td))))]"
    by (rule process_image_table)
  then show ?thesis
    by (simp add: sample_table_dict)
qed

lemma re_split_sep_free: "sep_free cell \<Longrightarrow> re_split cell = [cell]"
  using split_cells_sep_free [of cell "[]"] by (simp add: re_split_def)

lemma re_split_cell_sep:
  "sep_free cell \<and> (cell = [] \<or> \<not> is_space (last cell)) \<and> is_sep sep \<and>
   (rest = [] \<or> \<not> is_space (hd rest)) \<Longrightarrow>
   re_split (cell @ sep @ rest) = cell # re_split rest"
  using split_cells_cell_sep [of cell sep rest "[]"] by (simp add: re_split_def)

text \<open>
  Claim C7. The table processor takes the non-empty lines of the recognized text, splits
  each at runs of two or more white-space characters and at tabs, and drops the lines
  that give one cell or none. With at least two lines left, the first is the header and
  each other line a row; the text \<^verbatim>\<open>Name  Speed\nA  45\nB  30\<close> gives the rows
  \<^verbatim>\<open>{Name: A, Speed: 45}\<close> and \<^verbatim>\<open>{Name: B, Speed: 30}\<close>. With fewer than two lines left
  the result is an empty table with a note, returned and not raised.
\<close>

theorem process_table_rows:
  assumes "imread w p = Some im" and "ocr_gray_psm6 im = Inr text"
    and "table_data = parse_lines (split_lines (strip text)) []"
  shows "table_data = filter (\<lambda>cells. 1 < length cells)
                        (map (\<lambda>l. re_split (strip l))
                           (filter (\<lambda>l. strip l \<noteq> []) (split_lines (strip text)))) \<and>
         (length table_data < 2 \<longrightarrow>
            process_table w p =
              Inr [(''type'', VStr ''table''), (''data'', VList []),
                   (''error'', VStr ''No valid table structure detected'')] \<and>
            process_image w p ''table'' =
              [(''type'', VStr ''table''), (''data'', VList []),
               (''error'', VStr ''No valid table structure detected'')]) \<and>
         (2 \<le> length table_data \<and>
          (\<forall>row\<in>set (tl table_data). length row = length (hd table_data)) \<longrightarrow>
            process_table w p =
              Inr [(''type'', VStr ''table''),
                   (''data'', VList (map (\<lambda>row. VDict (dict_zip (hd table_data) (map VStr row)))
                                       (tl table_data))),
                   (''columns'', VList (map VStr (hd table_data))),
                   (''rows'', VInt (int (length (tl table_data))))]) \<and>
         (sep_free cell \<longrightarrow> re_split cell = [cell]) \<and>
         (sep_free cell \<and> (cell = [] \<or> \<not> is_space (last cell)) \<and> is_sep sep \<and>
          (rest = [] \<or> \<not> is_space (hd rest)) \<longrightarrow>
            re_split (cell @ sep @ rest) = cell # re_split rest) \<and>
         (text = sample_table_text \<longrightarrow>
            map_of (process_image w p ''table'') ''data'' =
              Some (VList [VDict [(''Name'', VStr ''A''), (''Speed'', VStr ''45'')],
                           VDict [(''Name'', VStr ''B''), (''Speed'', VStr ''30'')]]))"
proof (intro conjI impI)
  show "table_data = filter (\<lambda>cells. 1 < length cells)
                        (map (\<lambda>l. re_split (strip l))
                           (filter (\<lambda>l. strip l \<noteq> []) (split_lines (strip text))))"
    unfolding assms(3) by (simp add: parse_lines_acc)
  show few: "process_table w p =
              Inr [(''type'', VStr ''table''), (''data'', VList []),
                   (''error'', VStr ''No valid table structure detected'')]"
    if "length table_data < 2"
    using assms that by (rule process_table_few)
  show "process_image w p ''table'' =
              [(''type'', VStr ''table''), (''data'', VList []),
               (''error'', VStr ''No valid table structure detected'')]"
    if "length table_data < 2"
    using few [OF that] by (rule process_image_table)
  show "process_table w p =
              Inr [(''type'', VStr ''table''),
                   (''data'', VList (map (\<lambda>row. VDict (dict_zip (hd table_data) (map VStr row)))
                                       (tl table_data))),
                   (''columns'', VList (map VStr (hd table_data))),
                   (''rows'', VInt (int (length (tl table_data))))]"
    if "2 \<le> length table_data \<and>
          (\<forall>row\<in>set (tl table_data). length row = length (hd table_data))"
    using assms that [THEN conjunct1] that [THEN conjunct2] by (rule process_table_regular)
  show "re_split cell = [cell]" if "sep_free cell"
    using that by (rule re_split_sep_free)
  show "re_split (cell @ sep @ rest) = cell # re_split rest"
    if "sep_free cell \<and> (cell = [] \<or> \<not> is_space (last cell)) \<and> is_sep sep \<and>
          (rest = [] \<or> \<not> is_space (hd rest))"
    using that by (rule re_split_cell_sep)
  show "map_of (process_image w p ''table'') ''data'' =
              Some (VList [VDict [(''Name'', VStr ''A''), (''Speed'', VStr ''45'')],
                           VDict [(''Name'', VStr ''B''), (''Speed'', VStr ''30'')]])"
    if "text = sample_table_text"
    using assms(1) assms(2) [unfolded that] by (rule process_table_sample)
qed

theorem process_table_rows_witness:
  "imread sample_world ''table.png'' = Some (sample_image sample_table_text []) \<and>
   ocr_gray_psm6 (sample_image sample_table_text []) = Inr sample_table_text \<and>
   map_of (process_image sample_world ''table.png'' ''table'') ''data'' =
     Some (VList [VDict [(''Name'', VStr ''A''), (''Speed'', VStr ''45'')],
                  VDict [(''Name'', VStr ''B''), (''Speed'', VStr ''30'')]])"
proof -
  have a: "imread sample_world ''table.png'' = Some (sample_image sample_table_text [])"
    by code_simp
  have b: "ocr_gray_psm6 (sample_image sample_table_text []) = Inr sample_table_text"
    by (simp add: sample_image_def)
  have "map_of (process_image sample_world ''table.png'' ''table'') ''data'' =
     Some (VList [VDict [(''Name'', VStr ''A''), (''Speed'', VStr ''45'')],
                  VDict [(''Name'', VStr ''B''), (''Speed'', VStr ''30'')]])"
    by (rule process_table_rows [OF a b refl, THEN conjunct2, THEN conjunct2, THEN conjunct2,
                                 THEN conjunct2, THEN conjunct2, THEN mp, OF refl])
  with a b show ?thesis by (intro conjI)
qed

section \<open>The shape of every result\<close>

lemma process_traffic_map_shape:
  "process_traffic_map w p = Inr r \<Longrightarrow>
   \<exists>ls ss cs. r = [(''type'', VStr ''traffic_map''),
                   (''data'', VDict [(''locations'', VList (map VStr ls)),
                                     (''speeds'', VList (map VInt ss)),
                                     (''conditions'', VList (map VStr cs)),
                                     (''timestamp'', VStr (now_isoformat w))]),
                   (''extracted_count'', VInt (int (length ls)))]"
  by (auto simp: process_traffic_map_def andthen_Inr_iff Let_def)

lemma process_chart_shape:
  "process_chart w p = Inr r \<Longrightarrow>
   \<exists>vs ls chart_type. r = [(''type'', VStr ''chart''),
                   (''data'', VDict [(''values'', VList (map VFloat vs)),
                                     (''labels'', VList (map VStr ls)),
                                     (''chart_type'', VStr chart_type),
                                     (''timestamp'', VStr (now_isoformat w))]),
                   (''extracted_count'', VInt (int (length vs)))]"
proof -
  assume "process_chart w p = Inr r"
  then obtain t chart_type where
    "r = (let numbers = map py_float (re_findall number_pattern t);
              vals = take 24 numbers;
              labels = map (\<lambda>i. ''Hour '' @ str_nat i) [0..<length (take 24 numbers)]
          in [(''type'', VStr ''chart''),
              (''data'', VDict [(''values'', VList (map VFloat vals)),
                                (''labels'', VList (map VStr labels)),
                                (''chart_type'', VStr chart_type),
                                (''timestamp'', VStr (now_isoformat w))]),
              (''extracted_count'', VInt (int (length vals)))])"
    unfolding process_chart_def Let_def andthen_Inr_iff by blast
  then show ?thesis
    unfolding Let_def by blast
qed

lemma process_screenshot_shape:
  "process_screenshot w p = Inr r \<Longrightarrow>
   \<exists>app_type info. r = [(''type'', VStr ''screenshot''),
                   (''data'', VDict [(''app_type'', VStr app_type),
                                     (''traffic_info'', VDict info),
                                     (''timestamp'', VStr (now_isoformat w))]),
                   (''app_detected'', VStr app_type)]"
  by (auto simp: process_screenshot_def andthen_Inr_iff Let_def)

lemma generic_ocr_processing_shape:
  "generic_ocr_processing w p = Inr r \<Longrightarrow>
   \<exists>text ns. r = [(''type'', VStr ''generic''),
                  (''text'', VStr text),
                  (''numbers'', VList (map VFloat ns)),
                  (''extracted_count'', VInt (int (length ns)))]"
proof -
  assume "generic_ocr_processing w p = Inr r"
  then obtain t where
    "r = [(''type'', VStr ''generic''),
          (''text'', VStr t),
          (''numbers'', VList (map (\<lambda>n. VFloat (py_float n)) (re_findall number_pattern t))),
          (''extracted_count'', VInt (int (length (re_findall number_pattern t))))]"
    by (auto simp: generic_ocr_processing_def andthen_Inr_iff Let_def)
  then have "r = [(''type'', VStr ''generic''),
          (''text'', VStr t),
          (''numbers'', VList (map VFloat (map py_float (re_findall number_pattern t)))),
          (''extracted_count'',
             VInt (int (length (map py_float (re_findall number_pattern t)))))]"
    by (simp add: o_def)
  then show ?thesis by blast
qed

lemma DataFrame_Inr:
  "DataFrame rows columns = Inr df \<Longrightarrow> fst df = columns \<and> length (snd df) = length rows"
  by (auto simp: DataFrame_def Let_def split: if_splits)

lemma process_table_shape:
  "process_table w p = Inr r \<Longrightarrow>
   r = [(''type'', VStr ''table''), (''data'', VList []),
        (''error'', VStr ''No valid table structure detected'')] \<or>
   (\<exists>columns rows. rows \<noteq> [] \<and>
      r = [(''type'', VStr ''table''),
           (''data'', VList (map (\<lambda>row. VDict (dict_zip columns row)) rows)),
           (''columns'', VList (map VStr columns)),
           (''rows'', VInt (int (length rows)))])"
proof -
  assume ok: "process_table w p = Inr r"
  then obtain t where
    r: "(let table_data = parse_lines (split_lines (strip t)) []
         in if table_data \<noteq> [] \<and> length table_data > 1
            then andthen (DataFrame (tl table_data) (hd table_data)) (\<lambda>df.
                   Inr [(''type'', VStr ''table''),
                        (''data'', VList (to_dict_records df)),
                        (''columns'', VList (map VStr (fst df))),
                        (''rows'', VInt (int (length (snd df))))])
            else Inr [(''type'', VStr ''table''),
                      (''data'', VList []),
                      (''error'', VStr ''No valid table structure detected'')]) = Inr r"
    unfolding process_table_def Let_def andthen_Inr_iff by blast
  define td where "td = parse_lines (split_lines (strip t)) []"
  show ?thesis
  proof (cases "td \<noteq> [] \<and> length td > 1")
    case False
    with r have "r = [(''type'', VStr ''table''), (''data'', VList []),
                      (''error'', VStr ''No valid table structure detected'')]"
      unfolding Let_def td_def [symmetric] by auto
    then show ?thesis by blast
  next
    case True
    with r obtain df where df: "DataFrame (tl td) (hd td) = Inr df" and
      r': "r = [(''type'', VStr ''table''),
                (''data'', VList (to_dict_records df)),
                (''columns'', VList (map VStr (fst df))),
                (''rows'', VInt (int (length (snd df))))]"
      unfolding Let_def td_def [symmetric] by (auto simp: andthen_Inr_iff)
    from True have tl: "tl td \<noteq> []" by (cases td) auto
    from DataFrame_Inr [OF df] have "length (snd df) = length (tl td)" by blast
    with tl have ne: "snd df \<noteq> []" by (metis length_0_conv)
    have "to_dict_records df = map (\<lambda>row. VDict (dict_zip (fst df) row)) (snd df)"
      by (simp add: to_dict_records_def split: prod.splits)
    with r' ne show ?thesis by blast
  qed
qed

lemma process_image_try_cases:
  "process_image_try w p h = Inr r \<Longrightarrow>
   process_traffic_map w p = Inr r \<or> process_chart w p = Inr r \<or>
   process_screenshot w p = Inr r \<or> process_table w p = Inr r \<or>
   generic_ocr_processing w p = Inr r"
  by (auto simp: process_image_try_def andthen_Inr_iff split: if_splits)

lemma process_image_Inl:
  "process_image_try w p h = Inl e \<Longrightarrow>
   \<exists>msg. process_image w p h = [(''error'', VStr (''Processing failed: '' @ msg)), (''data'', VNone)]"
  by (cases e) (simp add: process_image_def)

lemma process_image_Inr: "process_image_try w p h = Inr r \<Longrightarrow> process_image w p h = r"
  by (simp add: process_image_def)

text \<open>
  Claim C1. Every result of \<^verbatim>\<open>process_image\<close> is either an error result, with the error
  set and the data empty or absent, or a success result, with the payload populated
  according to its kind and no error, and never both.
\<close>

theorem process_image_error_or_success:
  "(has_error (process_image w p h) \<and> data_empty (process_image w p h) \<and>
    \<not> payload_populated (process_image w p h)) \<or>
   (\<not> has_error (process_image w p h) \<and> payload_populated (process_image w p h))"
proof -
  let ?ok = "\<lambda>r. (has_error r \<and> data_empty r \<and> \<not> payload_populated r) \<or>
                 (\<not> has_error r \<and> payload_populated r)"
  show ?thesis
  proof (cases "process_image_try w p h")
    case (Inl e)
    then obtain msg where
      "process_image w p h = [(''error'', VStr (''Processing failed: '' @ msg)), (''data'', VNone)]"
      using process_image_Inl by blast
    then show ?thesis
      by (simp add: has_error_def data_empty_def payload_populated_def)
  next
    case (Inr r)
    then have r: "process_image w p h = r" by (rule process_image_Inr)
    from Inr consider
      "process_traffic_map w p = Inr r" | "process_chart w p = Inr r" |
      "process_screenshot w p = Inr r" | "process_table w p = Inr r" |
      "generic_ocr_processing w p = Inr r"
      using process_image_try_cases by blast
    then have "?ok r"
    proof cases
      case 1
      then obtain ls ss cs where "r = [(''type'', VStr ''traffic_map''),
                   (''data'', VDict [(''locations'', VList (map VStr ls)),
                                     (''speeds'', VList (map VInt ss)),
                                     (''conditions'', VList (map VStr cs)),
                                     (''timestamp'', VStr (now_isoformat w))]),
                   (''extracted_count'', VInt (int (length ls)))]"
        using process_traffic_map_shape by blast
      then show ?thesis
        by (simp add: has_error_def payload_populated_def is_list_def)
    next
      case 2
      then obtain vs ls chart_type where "r = [(''type'', VStr ''chart''),
                   (''data'', VDict [(''values'', VList (map VFloat vs)),
                                     (''labels'', VList (map VStr ls)),
                                     (''chart_type'', VStr chart_type),
                                     (''timestamp'', VStr (now_isoformat w))]),
                   (''extracted_count'', VInt (int (length vs)))]"
        using process_chart_shape by blast
      then show ?thesis
        by (simp add: has_error_def payload_populated_def is_list_def is_str_def)
    next
      case 3
      then obtain app_type info where "r = [(''type'', VStr ''screenshot''),
                   (''data'', VDict [(''app_type'', VStr app_type),
                                     (''traffic_info'', VDict info),
                                     (''timestamp'', VStr (now_isoformat w))]),
                   (''app_detected'', VStr app_type)]"
        using process_screenshot_shape by blast
      then show ?thesis
        by (simp add: has_error_def payload_populated_def is_dict_def is_str_def)
    next
      case 4
      then consider
        "r = [(''type'', VStr ''table''), (''data'', VList []),
              (''error'', VStr ''No valid table structure detected'')]" |
        columns rows where "rows \<noteq> []"
          "r = [(''type'', VStr ''table''),
                (''data'', VList (map (\<lambda>row. VDict (dict_zip columns row)) rows)),
                (''columns'', VList (map VStr columns)),
                (''rows'', VInt (int (length rows)))]"
        using process_table_shape by blast
      then show ?thesis
      proof cases
        case 1
        then show ?thesis
          by (simp add: has_error_def data_empty_def payload_populated_def)
      next
        case 2
        then show ?thesis
          by (simp add: has_error_def payload_populated_def is_dict_def list_all_iff)
      qed
    next
      case 5
      then obtain t ns where "r = [(''type'', VStr ''generic''),
                  (''text'', VStr t),
                  (''numbers'', VList (map VFloat ns)),
                  (''extracted_count'', VInt (int (length ns)))]"
        using generic_ocr_processing_shape by blast
      then show ?thesis
        by (simp add: has_error_def payload_populated_def is_list_def is_str_def)
    qed
    then show ?thesis unfolding r .
  qed
qed

theorem process_image_error_or_success_witness:
  "has_error (process_image sample_world ''gone.png'' ''auto'') \<and>
   data_empty (process_image sample_world ''gone.png'' ''auto'') \<and>
   \<not> payload_populated (process_image sample_world ''gone.png'' ''auto'') \<and>
   \<not> has_error (process_image sample_world ''map.png'' ''auto'') \<and>
   payload_populated (process_image sample_world ''map.png'' ''auto'')"
proof -
  have e: "has_error (process_image sample_world ''gone.png'' ''auto'')"
    by code_simp
  have s: "\<not> has_error (process_image sample_world ''map.png'' ''auto'')"
    by code_simp
  from process_image_error_or_success [of sample_world "''gone.png''" "''auto''"]
       process_image_error_or_success [of sample_world "''map.png''" "''auto''"] e s
  show ?thesis by blast
qed

text \<open>
  Claim C2, as the code has it. A result without error of kind \<^verbatim>\<open>traffic_map\<close>,
  \<^verbatim>\<open>chart\<close> or \<^verbatim>\<open>generic\<close> carries \<^verbatim>\<open>extracted_count\<close>, the number of its locations,
  values or numbers. A table result carries no \<^verbatim>\<open>extracted_count\<close> but the number of its
  rows under \<^verbatim>\<open>rows\<close>, and a screenshot result carries no count, only \<^verbatim>\<open>app_detected\<close>.
\<close>

theorem extracted_count_by_kind:
  assumes "\<not> has_error (process_image w p h)"
  shows "(map_of (process_image w p h) ''type'' = Some (VStr ''traffic_map'') \<longrightarrow>
            (\<exists>d ls. map_of (process_image w p h) ''data'' = Some (VDict d) \<and>
               map_of d ''locations'' = Some (VList ls) \<and>
               map_of (process_image w p h) ''extracted_count'' = Some (VInt (int (length ls))))) \<and>
         (map_of (process_image w p h) ''type'' = Some (VStr ''chart'') \<longrightarrow>
            (\<exists>d vs. map_of (process_image w p h) ''data'' = Some (VDict d) \<and>
               map_of d ''values'' = Some (VList vs) \<and>
               map_of (process_image w p h) ''extracted_count'' = Some (VInt (int (length vs))))) \<and>
         (map_of (process_image w p h) ''type'' = Some (VStr ''generic'') \<longrightarrow>
            (\<exists>ns. map_of (process_image w p h) ''numbers'' = Some (VList ns) \<and>
               map_of (process_image w p h) ''extracted_count'' = Some (VInt (int (length ns))))) \<and>
         (map_of (process_image w p h) ''type'' = Some (VStr ''table'') \<longrightarrow>
            map_of (process_image w p h) ''extracted_count'' = None \<and>
            (\<exists>rows. map_of (process_image w p h) ''data'' = Some (VList rows) \<and>
               map_of (process_image w p h) ''rows'' = Some (VInt (int (length rows))))) \<and>
         (map_of (process_image w p h) ''type'' = Some (VStr ''screenshot'') \<longrightarrow>
            map_of (process_image w p h) ''extracted_count'' = None \<and>
            (\<exists>app. map_of (process_image w p h) ''app_detected'' = Some (VStr app)))"
proof -
  let ?count = "\<lambda>r. (map_of r ''type'' = Some (VStr ''traffic_map'') \<longrightarrow>
            (\<exists>d ls. map_of r ''data'' = Some (VDict d) \<and>
               map_of d ''locations'' = Some (VList ls) \<and>
               map_of r ''extracted_count'' = Some (VInt (int (length ls))))) \<and>
         (map_of r ''type'' = Some (VStr ''chart'') \<longrightarrow>
            (\<exists>d vs. map_of r ''data'' = Some (VDict d) \<and>
               map_of d ''values'' = Some (VList vs) \<and>
               map_of r ''extracted_count'' = Some (VInt (int (length vs))))) \<and>
         (map_of r ''type'' = Some (VStr ''generic'') \<longrightarrow>
            (\<exists>ns. map_of r ''numbers'' = Some (VList ns) \<and>
               map_of r ''extracted_count'' = Some (VInt (int (length ns))))) \<and>
         (map_of r ''type'' = Some (VStr ''table'') \<longrightarrow>
            map_of r ''extracted_count'' = None \<and>
            (\<exists>rows. map_of r ''data'' = Some (VList rows) \<and>
               map_of r ''rows'' = Some (VInt (int (length rows))))) \<and>
         (map_of r ''type'' = Some (VStr ''screenshot'') \<longrightarrow>
            map_of r ''extracted_count'' = None \<and>
            (\<exists>app. map_of r ''app_detected'' = Some (VStr app)))"
  have "\<exists>r. process_image_try w p h = Inr r"
  proof (cases "process_image_try w p h")
    case (Inl e)
    then obtain msg where
      "process_image w p h = [(''error'', VStr (''Processing failed: '' @ msg)), (''data'', VNone)]"
      using process_image_Inl by blast
    then have "has_error (process_image w p h)"
      by (simp add: has_error_def)
    with assms show ?thesis by blast
  next
    case (Inr r)
    then show ?thesis by blast
  qed
  then obtain r where ok: "process_image_try w p h = Inr r" by blast
  then have r: "process_image w p h = r" by (rule process_image_Inr)
  from ok consider
      "process_traffic_map w p = Inr r" | "process_chart w p = Inr r" |
      "process_screenshot w p = Inr r" | "process_table w p = Inr r" |
      "generic_ocr_processing w p = Inr r"
    using process_image_try_cases by blast
  then have "?count r"
  proof cases
    case 1
    then obtain ls ss cs where "r = [(''type'', VStr ''traffic_map''),
                   (''data'', VDict [(''locations'', VList (map VStr ls)),
                                     (''speeds'', VList (map VInt ss)),
                                     (''conditions'', VList (map VStr cs)),
                                     (''timestamp'', VStr (now_isoformat w))]),
                   (''extracted_count'', VInt (int (length ls)))]"
      using process_traffic_map_shape by blast
    then show ?thesis by simp
  next
    case 2
    then obtain vs ls chart_type where "r = [(''type'', VStr ''chart''),
                   (''data'', VDict [(''values'', VList (map VFloat vs)),
                                     (''labels'', VList (map VStr ls)),
                                     (''chart_type'', VStr chart_type),
                                     (''timestamp'', VStr (now_isoformat w))]),
                   (''extracted_count'', VInt (int (length vs)))]"
      using process_chart_shape by blast
    then show ?thesis by simp
  next
    case 3
    then obtain app_type info where "r = [(''type'', VStr ''screenshot''),
                   (''data'', VDict [(''app_type'', VStr app_type),
                                     (''traffic_info'', VDict info),
                                     (''timestamp'', VStr (now_isoformat w))]),
                   (''app_detected'', VStr app_type)]"
      using process_screenshot_shape by blast
    then show ?thesis by simp
  next
    case 4
    then consider
        "r = [(''type'', VStr ''table''), (''data'', VList []),
              (''error'', VStr ''No valid table structure detected'')]" |
        columns rows where "rows \<noteq> []"
          "r = [(''type'', VStr ''table''),
                (''data'', VList (map (\<lambda>row. VDict (dict_zip columns row)) rows)),
                (''columns'', VList (map VStr columns)),
                (''rows'', VInt (int (length rows)))]"
      using process_table_shape by blast
    then show ?thesis
    proof cases
      case 1
      then have "has_error r" by (simp add: has_error_def)
      with assms r show ?thesis by simp
    next
      case 2
      then show ?thesis by simp
    qed
  next
    case 5
    then obtain t ns where "r = [(''type'', VStr ''generic''),
                  (''text'', VStr t),
                  (''numbers'', VList (map VFloat ns)),
                  (''extracted_count'', VInt (int (length ns)))]"
      using generic_ocr_processing_shape by blast
    then show ?thesis by simp
  qed
  then show ?thesis unfolding r .
qed

theorem extracted_count_by_kind_witness:
  "\<not> has_error (process_image sample_world ''map.png'' ''auto'') \<and>
   map_of (process_image sample_world ''map.png'' ''auto'') ''type'' = Some (VStr ''traffic_map'') \<and>
   (\<exists>d ls. map_of (process_image sample_world ''map.png'' ''auto'') ''data'' = Some (VDict d) \<and>
      map_of d ''locations'' = Some (VList ls) \<and>
      map_of (process_image sample_world ''map.png'' ''auto'') ''extracted_count'' =
        Some (VInt (int (length ls))))"
proof -
  have s: "\<not> has_error (process_image sample_world ''map.png'' ''auto'')"
    by code_simp
  have t: "map_of (process_image sample_world ''map.png'' ''auto'') ''type'' =
             Some (VStr ''traffic_map'')"
    by code_simp
  from extracted_count_by_kind [OF s, THEN conjunct1] s t show ?thesis
    by blast
qed

theorem screenshot_has_no_extracted_count:
  "\<not> has_error (process_image sample_world ''shot.png'' ''screenshot'') \<and>
   map_of (process_image sample_world ''shot.png'' ''screenshot'') ''type'' =
     Some (VStr ''screenshot'') \<and>
   map_of (process_image sample_world ''shot.png'' ''screenshot'') ''extracted_count'' = None"
  by code_simp

end
